theory Spec2Isabelle
  imports Main "HOL-Library.Word"
begin

unbundle bit_operations_syntax

section \<open>Python values and built-ins the program relies on\<close>

text \<open>
  A Python \<open>str\<close> is modelled as a \<open>string\<close> whose characters are code points below 256
  (what the \<open>latin-1\<close> setting of the program decodes to); \<open>bytes\<close> is a list of
  8-bit words; a Python \<open>int\<close> is an \<open>int\<close>. An exception is the \<open>Inl\<close> side of a
  sum, so that every \<open>try\<close>/\<open>except\<close> of the source is a branch of the model.
\<close>

datatype py_error = ValueError | IndexError | TypeError | OverflowError | JSONDecodeError
                  | RecursionError

type_synonym byte = "8 word"

type_synonym 'a result = "py_error + 'a"

text \<open>\<open>except C\<close> catches \<open>C\<close> and its subclasses; \<open>JSONDecodeError\<close> derives from \<open>ValueError\<close>.\<close>

definition is_instance :: "py_error \<Rightarrow> py_error \<Rightarrow> bool" where
  "is_instance e cls = (e = cls \<or> (e = JSONDecodeError \<and> cls = ValueError))"

definition try_except :: "'a result \<Rightarrow> py_error list \<Rightarrow> 'a result \<Rightarrow> 'a result" where
  "try_except body classes handler =
     (case body of
        Inr v \<Rightarrow> Inr v
      | Inl e \<Rightarrow> if list_ex (is_instance e) classes then handler else Inl e)"

definition bind_result :: "'a result \<Rightarrow> ('a \<Rightarrow> 'b result) \<Rightarrow> 'b result" where
  "bind_result r f = (case r of Inl e \<Rightarrow> Inl e | Inr v \<Rightarrow> f v)"

text \<open>An f-string: its pieces are evaluated left to right, the first exception wins.\<close>

fun fstring :: "string result list \<Rightarrow> string result" where
  "fstring [] = Inr []"
| "fstring (p # ps) =
     (case p of
        Inl e \<Rightarrow> Inl e
      | Inr s \<Rightarrow> (case fstring ps of Inl e \<Rightarrow> Inl e | Inr t \<Rightarrow> Inr (s @ t)))"

text \<open>\<open>xs[i]\<close> for a literal index \<open>i \<ge> 0\<close>.\<close>

definition index :: "'a list \<Rightarrow> nat \<Rightarrow> 'a result" where
  "index xs i = (if i < length xs then Inr (xs ! i) else Inl IndexError)"

abbreviation NL :: string where
  "NL \<equiv> [CHR 0x0A]"

text \<open>\<open>str.isspace\<close> on code points below 256, and the ASCII-only \<open>Py_ISSPACE\<close> of the
  number and hex parsers.\<close>

definition is_space :: "char \<Rightarrow> bool" where
  "is_space c = (let n = (of_char c :: nat)
                 in (9 \<le> n \<and> n \<le> 13) \<or> (28 \<le> n \<and> n \<le> 32) \<or> n = 0x85 \<or> n = 0xA0)"

definition is_ascii_space :: "char \<Rightarrow> bool" where
  "is_ascii_space c = (let n = (of_char c :: nat) in (9 \<le> n \<and> n \<le> 13) \<or> n = 32)"

definition py_strip :: "string \<Rightarrow> string" where
  "py_strip s = rev (dropWhile is_space (rev (dropWhile is_space s)))"

definition startswith :: "string \<Rightarrow> char \<Rightarrow> bool" where
  "startswith s c = (case s of [] \<Rightarrow> False | x # _ \<Rightarrow> x = c)"

definition endswith :: "string \<Rightarrow> char \<Rightarrow> bool" where
  "endswith s c = (case rev s of [] \<Rightarrow> False | x # _ \<Rightarrow> x = c)"

text \<open>\<open>s.split(c)\<close> for a one-character separator: always at least one piece.\<close>

fun py_split :: "char \<Rightarrow> string \<Rightarrow> string list" where
  "py_split c [] = [[]]"
| "py_split c (x # xs) =
     (if x = c then [] # py_split c xs
      else (case py_split c xs of [] \<Rightarrow> [[x]] | p # ps \<Rightarrow> (x # p) # ps))"

text \<open>\<open>s.split(c, 1)\<close>: cut at the first separator only.\<close>

definition py_split1 :: "char \<Rightarrow> string \<Rightarrow> string list" where
  "py_split1 c s =
     (if c \<in> set s then [takeWhile (\<lambda>x. x \<noteq> c) s, tl (dropWhile (\<lambda>x. x \<noteq> c) s)] else [s])"

text \<open>\<open>sub in s\<close> on strings: \<open>sub\<close> occurs in \<open>s\<close> as a contiguous piece.\<close>

fun py_contains :: "string \<Rightarrow> string \<Rightarrow> bool" where
  "py_contains sub [] = (sub = [])"
| "py_contains sub (x # xs) = (take (length sub) (x # xs) = sub \<or> py_contains sub xs)"

definition py_join :: "string \<Rightarrow> string list \<Rightarrow> string" where
  "py_join sep xs = (case xs of [] \<Rightarrow> [] | y # ys \<Rightarrow> y @ concat (map (\<lambda>z. sep @ z) ys))"

subsection \<open>Number rendering\<close>

definition hex_char :: "nat \<Rightarrow> char" where
  "hex_char d = ''0123456789ABCDEF'' ! d"

definition dec_char :: "nat \<Rightarrow> char" where
  "dec_char d = ''0123456789'' ! d"

fun hex_digits :: "nat \<Rightarrow> string" where
  "hex_digits n = (if n < 16 then [hex_char n] else hex_digits (n div 16) @ [hex_char (n mod 16)])"

fun dec_digits :: "nat \<Rightarrow> string" where
  "dec_digits n = (if n < 10 then [dec_char n] else dec_digits (n div 10) @ [dec_char (n mod 10)])"

text \<open>Both recursions are unfolded on demand only, never by the simplifier on its own.\<close>

declare hex_digits.simps [simp del] dec_digits.simps [simp del]

definition zfill :: "nat \<Rightarrow> string \<Rightarrow> string" where
  "zfill w s = replicate (w - length s) (CHR ''0'') @ s"

text \<open>\<open>f"{n:0wX}"\<close>: upper-case hexadecimal, zero-padded to width \<open>w\<close>, the sign counted
  in the width.\<close>

definition format_X :: "nat \<Rightarrow> int \<Rightarrow> string" where
  "format_X w n =
     (if n < 0 then CHR ''-'' # zfill (w - 1) (hex_digits (nat (- n)))
      else zfill w (hex_digits (nat n)))"

text \<open>\<open>f"{n}"\<close> for an integer.\<close>

definition py_str :: "int \<Rightarrow> string" where
  "py_str n = (if n < 0 then CHR ''-'' # dec_digits (nat (- n)) else dec_digits (nat n))"

text \<open>\<open>data.hex(' ').upper()\<close>.\<close>

definition bytes_hex_upper :: "byte list \<Rightarrow> string" where
  "bytes_hex_upper bs = py_join '' '' (map (\<lambda>b. format_X 2 (uint b)) bs)"

subsection \<open>Number parsing\<close>

text \<open>The digit table of the interpreter: letters of either case count from 10, every
  other character is no digit (37).\<close>

definition digit_value :: "char \<Rightarrow> nat" where
  "digit_value c =
     (let n = (of_char c :: nat)
      in if 48 \<le> n \<and> n \<le> 57 then n - 48
         else if 97 \<le> n \<and> n \<le> 122 then n - 87
         else if 65 \<le> n \<and> n \<le> 90 then n - 55
         else 37)"

text \<open>Digits with single underscores between them; \<open>None\<close> on a doubled or trailing
  underscore. Returns the value, the number of digits and the unread rest.\<close>

fun scan_digits :: "nat \<Rightarrow> string \<Rightarrow> bool \<Rightarrow> nat \<Rightarrow> nat \<Rightarrow> (nat \<times> nat \<times> string) option" where
  "scan_digits base [] prev_us k acc = (if prev_us then None else Some (acc, k, []))"
| "scan_digits base (c # cs) prev_us k acc =
     (if c = CHR ''_'' then (if prev_us then None else scan_digits base cs True k acc)
      else if digit_value c < base
           then scan_digits base cs False (Suc k) (acc * base + digit_value c)
      else if prev_us then None else Some (acc, k, c # cs))"

text \<open>
  \<open>int(s, base)\<close> for \<open>base\<close> 10 or 16 on a string of code points below 256: white space
  around the number, an optional sign, for base 16 an optional \<open>0x\<close>/\<open>0X\<close> prefix that
  may be followed by one underscore, then digits. A NUL, or a character from 127 on that
  is not white space, is never accepted. (The digit-count limit that recent interpreters
  put on decimal strings cannot trigger on the one-character argument the program passes.)
\<close>

definition int_body :: "nat \<Rightarrow> string \<Rightarrow> int result" where
  "int_body base s0 =
     (let (neg, s1) = (case s0 of
                         c # cs \<Rightarrow> if c = CHR ''+'' then (False, cs)
                                   else if c = CHR ''-'' then (True, cs) else (False, s0)
                       | [] \<Rightarrow> (False, s0));
          s2 = (case s1 of
                  z # x # cs \<Rightarrow>
                    if base = 16 \<and> z = CHR ''0'' \<and> (x = CHR ''x'' \<or> x = CHR ''X'')
                    then (case cs of u # us \<Rightarrow> if u = CHR ''_'' then us else cs | [] \<Rightarrow> cs)
                    else s1
                | _ \<Rightarrow> s1)
      in if startswith s2 (CHR ''_'') then Inl ValueError
         else (case scan_digits base s2 False 0 0 of
                 None \<Rightarrow> Inl ValueError
               | Some (v, k, rest) \<Rightarrow>
                   if k = 0 then Inl ValueError
                   else if dropWhile is_ascii_space rest \<noteq> [] then Inl ValueError
                   else Inr (if neg then - int v else int v)))"

definition py_int :: "nat \<Rightarrow> string \<Rightarrow> int result" where
  "py_int base s =
     (if list_ex (\<lambda>c. of_char c = (0::nat) \<or> ((of_char c :: nat) \<ge> 127 \<and> \<not> is_space c)) s
      then Inl ValueError
      else int_body base
             (dropWhile is_ascii_space
                (map (\<lambda>c. if (of_char c :: nat) \<ge> 127 then CHR '' '' else c) s)))"

text \<open>\<open>bytes.fromhex(s)\<close>: pairs of hex digits, ASCII white space allowed before a pair.\<close>

fun fromhex :: "string \<Rightarrow> byte list result" where
  "fromhex [] = Inr []"
| "fromhex [c] = (if is_ascii_space c then Inr [] else Inl ValueError)"
| "fromhex (c # d # ds) =
     (if is_ascii_space c then fromhex (d # ds)
      else if 16 \<le> digit_value c \<or> 16 \<le> digit_value d then Inl ValueError
      else (case fromhex ds of
              Inl e \<Rightarrow> Inl e
            | Inr bs \<Rightarrow> Inr (word_of_nat (16 * digit_value c + digit_value d) # bs)))"

text \<open>\<open>n.to_bytes(2, 'little')\<close> and \<open>int.from_bytes(bs, 'little')\<close>.\<close>

definition to_bytes_le2 :: "int \<Rightarrow> byte list result" where
  "to_bytes_le2 n =
     (if 0 \<le> n \<and> n < 65536 then Inr [word_of_int (n mod 256), word_of_int (n div 256)]
      else Inl OverflowError)"

fun from_bytes_le :: "byte list \<Rightarrow> int" where
  "from_bytes_le [] = 0"
| "from_bytes_le (b # bs) = uint b + 256 * from_bytes_le bs"

section \<open>Modbus-RTU\<close>

text \<open>One pass of the inner loop of \<open>calculate_crc16\<close>.\<close>

definition crc_shift :: "int \<Rightarrow> int" where
  "crc_shift crc = (if crc AND 0x0001 \<noteq> 0 then drop_bit 1 crc XOR 0xA001 else drop_bit 1 crc)"

definition crc_byte :: "byte \<Rightarrow> int \<Rightarrow> int" where
  "crc_byte b crc = (crc_shift ^^ 8) (crc XOR uint b)"

definition calculate_crc16 :: "byte list \<Rightarrow> int" where
  "calculate_crc16 data = fold crc_byte data 0xFFFF"

text \<open>The CRC-16/MODBUS register as the specification words it, on a 16-bit register.\<close>

definition modbus_shift :: "16 word \<Rightarrow> 16 word" where
  "modbus_shift r = (if bit r 0 then drop_bit 1 r XOR 0xA001 else drop_bit 1 r)"

definition crc16_modbus_spec :: "byte list \<Rightarrow> 16 word" where
  "crc16_modbus_spec data = fold (\<lambda>b r. (modbus_shift ^^ 8) (r XOR ucast b)) data 0xFFFF"

definition func_map :: "(int \<times> string) list" where
  "func_map = [(1, ''Read Coils''), (2, ''Read Discrete Inputs''),
               (3, ''Read Holding Registers''), (4, ''Read Input Registers''),
               (5, ''Write Single Coil''), (6, ''Write Single Register'')]"

definition modbus_report :: "int \<Rightarrow> int \<Rightarrow> byte list \<Rightarrow> int \<Rightarrow> string \<Rightarrow> string" where
  "modbus_report address function_code payload received_crc crc_status =
     (let func_name = (case map_of func_map function_code of
                         Some name \<Rightarrow> name
                       | None \<Rightarrow> ''Desconocido (0x'' @ format_X 2 function_code @ '')'')
      in ''--- MODBUS RTU ---'' @ NL @
         ''  ID Esclavo:      '' @ py_str address @ NL @
         ''  Funci'' @ [CHR 0xF3] @ ''n:         '' @ py_str function_code @
            '' ('' @ func_name @ '')'' @ NL @
         ''  Datos (Hex):     '' @ bytes_hex_upper payload @ NL @
         ''  CRC Recibido:    '' @ format_X 4 received_crc @ '' ('' @ crc_status @ '')'' @ NL @
         ''---------------------'' @ NL)"

text \<open>The slices \<open>raw[2:-2]\<close>, \<open>raw[-2:]\<close> and \<open>raw[:-2]\<close> are only reached with at least
  four bytes, where they are the \<open>take\<close>/\<open>drop\<close> below.\<close>

definition parse_modbus_rtu :: "byte list \<Rightarrow> string result" where
  "parse_modbus_rtu raw_bytes =
     (if length raw_bytes < 4
      then Inr (''[TRAMA MODBUS MUY CORTA: '' @ bytes_hex_upper raw_bytes @ '']'' @ NL)
      else bind_result (index raw_bytes 0) (\<lambda>address.
           bind_result (index raw_bytes 1) (\<lambda>function_code.
             let payload = drop 2 (take (length raw_bytes - 2) raw_bytes);
                 received_crc = from_bytes_le (drop (length raw_bytes - 2) raw_bytes);
                 calculated_crc = calculate_crc16 (take (length raw_bytes - 2) raw_bytes);
                 crc_status = (if received_crc = calculated_crc then ''OK''
                               else ''ERROR (Calc: '' @ format_X 4 calculated_crc @ '')'')
             in Inr (modbus_report (uint address) (uint function_code) payload
                       received_crc crc_status))))"

section \<open>Line decoders\<close>

subsection \<open>NMEA-0183\<close>

text \<open>The loop \<open>for char in sentence_data: calculated_checksum ^= ord(char)\<close>.\<close>

definition nmea_checksum :: "string \<Rightarrow> int" where
  "nmea_checksum sentence_data = fold (\<lambda>char c. c XOR of_char char) sentence_data 0"

text \<open>The two report f-strings; a missing field raises \<open>IndexError\<close> where it is read.\<close>

definition gga_report :: "string list \<Rightarrow> string result" where
  "gga_report fields = fstring
       [Inr (''--- GGA: Global Positioning System Fix Data ---'' @ NL),
        Inr (''  Hora (UTC):      ''),
        map_sum id (take 2) (index fields 1),
        Inr ('':''),
        map_sum id (\<lambda>f. take 2 (drop 2 f)) (index fields 1),
        Inr ('':''),
        map_sum id (drop 4) (index fields 1),
        Inr (NL),
        Inr (''  Latitud:         ''),
        index fields 2,
        Inr ('' ''),
        index fields 3,
        Inr (NL),
        Inr (''  Longitud:        ''),
        index fields 4,
        Inr ('' ''),
        index fields 5,
        Inr (NL),
        Inr (''  Calidad Fix:     ''),
        index fields 6,
        Inr ('' (0=inv, 1=GPS, 2=DGPS)'' @ NL),
        Inr (''  Sat'' @ [CHR 0xE9] @ ''lites:       ''),
        index fields 7,
        Inr (NL),
        Inr (''  HDOP:            ''),
        index fields 8,
        Inr (NL),
        Inr (''  Altitud:         ''),
        index fields 9,
        Inr ('' ''),
        index fields 10,
        Inr (NL),
        Inr (''--------------------------------------------------'' @ NL)]"

definition rmc_report :: "string list \<Rightarrow> string result" where
  "rmc_report fields = fstring
       [Inr (''--- RMC: Recommended Minimum Specific GNSS Data ---'' @ NL),
        Inr (''  Hora (UTC):      ''),
        map_sum id (take 2) (index fields 1),
        Inr ('':''),
        map_sum id (\<lambda>f. take 2 (drop 2 f)) (index fields 1),
        Inr ('':''),
        map_sum id (drop 4) (index fields 1),
        Inr (NL),
        Inr (''  Estado:          ''),
        bind_result (index fields 2) (\<lambda>f2. if py_contains f2 ''AV'' then Inr ''A=Activo, V=Vacio'' else index fields 2),
        Inr (NL),
        Inr (''  Velocidad (nudos): ''),
        index fields 7,
        Inr (NL),
        Inr (''  Rumbo:           ''),
        index fields 8,
        Inr (NL),
        Inr (''  Fecha:           ''),
        map_sum id (take 2) (index fields 9),
        Inr (''/''),
        map_sum id (\<lambda>f. take 2 (drop 2 f)) (index fields 9),
        Inr (''/20''),
        map_sum id (drop 4) (index fields 9),
        Inr (NL),
        Inr (''--------------------------------------------------'' @ NL)]"

definition parse_nmea_sentence :: "string \<Rightarrow> string result" where
  "parse_nmea_sentence line0 =
     (let line = py_strip line0
      in if \<not> startswith line (CHR ''$'') \<or> CHR ''*'' \<notin> set line
         then Inr (''[NO NMEA] '' @ line @ NL)
         else
           let parts = py_split (CHR ''*'') line
           in if length parts \<noteq> 2
              then Inr (''[FORMATO NMEA INV'' @ [CHR 0xC1] @ ''LIDO] '' @ line @ NL)
              else
                let sentence = parts ! 0;
                    checksum_str = parts ! 1;
                    sentence_data = drop 1 sentence;
                    calculated_checksum = nmea_checksum sentence_data
                in case py_int 16 checksum_str of
                     Inl e \<Rightarrow>
                       if is_instance e ValueError
                       then Inr (''[CHECKSUM INV'' @ [CHR 0xC1] @ ''LIDO] '' @ line @ NL)
                       else Inl e
                   | Inr received_checksum \<Rightarrow>
                       if calculated_checksum \<noteq> received_checksum
                       then Inr (''[ERROR CHECKSUM: Calc='' @ format_X 2 calculated_checksum @
                                 '', Recib='' @ format_X 2 received_checksum @ ''] '' @
                                 line @ NL)
                       else
                         let fields = py_split (CHR '','') sentence_data
                         in bind_result (index fields 0) (\<lambda>msg_type.
                              if msg_type = ''GPGGA''
                              then try_except (gga_report fields) [IndexError]
                                     (Inr (''[GPGGA MAL FORMADO] '' @ line @ NL))
                              else if msg_type = ''GPRMC''
                              then try_except (rmc_report fields) [IndexError]
                                     (Inr (''[GPRMC MAL FORMADO] '' @ line @ NL))
                              else Inr (''[TIPO NMEA NO SOPORTADO: '' @ msg_type @ ''] '' @
                                        line @ NL)))"

subsection \<open>CAN-ASCII\<close>

text \<open>\<open>c.lower()\<close> on a code point below 256: the ASCII capitals and the accented
  capitals \<open>0xC0\<close> to \<open>0xDE\<close> (the multiplication sign \<open>0xD7\<close> apart) have a lower-case
  form, 32 places up.\<close>

definition upper_chars :: string where
  "upper_chars = ''ABCDEFGHIJKLMNOPQRSTUVWXYZ'' @
     [CHR 0xC0, CHR 0xC1, CHR 0xC2, CHR 0xC3, CHR 0xC4, CHR 0xC5, CHR 0xC6, CHR 0xC7, CHR 0xC8, CHR 0xC9, CHR 0xCA, CHR 0xCB, CHR 0xCC, CHR 0xCD, CHR 0xCE, CHR 0xCF, CHR 0xD0, CHR 0xD1, CHR 0xD2, CHR 0xD3, CHR 0xD4, CHR 0xD5, CHR 0xD6, CHR 0xD8, CHR 0xD9, CHR 0xDA, CHR 0xDB, CHR 0xDC, CHR 0xDD, CHR 0xDE]"

definition lower_chars :: string where
  "lower_chars = ''abcdefghijklmnopqrstuvwxyz'' @
     [CHR 0xE0, CHR 0xE1, CHR 0xE2, CHR 0xE3, CHR 0xE4, CHR 0xE5, CHR 0xE6, CHR 0xE7, CHR 0xE8, CHR 0xE9, CHR 0xEA, CHR 0xEB, CHR 0xEC, CHR 0xED, CHR 0xEE, CHR 0xEF, CHR 0xF0, CHR 0xF1, CHR 0xF2, CHR 0xF3, CHR 0xF4, CHR 0xF5, CHR 0xF6, CHR 0xF8, CHR 0xF9, CHR 0xFA, CHR 0xFB, CHR 0xFC, CHR 0xFD, CHR 0xFE]"

definition py_lower :: "char \<Rightarrow> char" where
  "py_lower c = (case map_of (zip upper_chars lower_chars) c of Some l \<Rightarrow> l | None \<Rightarrow> c)"

definition can_report :: "int \<Rightarrow> int \<Rightarrow> byte list \<Rightarrow> string" where
  "can_report can_id data_len data_bytes =
     ''--- CAN ASCII ---'' @ NL @
     ''  ID:            0x'' @ format_X 3 can_id @ NL @
     ''  DLC:           '' @ py_str data_len @ NL @
     ''  Datos:         '' @ py_join '' '' (map (\<lambda>b. format_X 2 (uint b)) data_bytes) @ NL @
     ''-------------------'' @ NL"

text \<open>The slices \<open>line[1:4]\<close> and \<open>line[5:5 + data_len * 2]\<close> never raise: they stop at
  the end of the line. \<open>data_len\<close> is the value of one decimal digit, so it is not negative.\<close>

definition parse_can_ascii :: "string \<Rightarrow> string result" where
  "parse_can_ascii line0 =
     (let line = py_strip line0
      in if line = [] \<or> py_lower (hd line) \<noteq> CHR ''t''
         then Inr (''[NO CAN-ASCII] '' @ line @ NL)
         else try_except
                (let can_id_str = take 3 (drop 1 line)
                 in bind_result (index line 4) (\<lambda>c4.
                    bind_result (py_int 10 [c4]) (\<lambda>data_len.
                      let data_str = take (nat (data_len * 2)) (drop 5 line)
                      in bind_result (py_int 16 can_id_str) (\<lambda>can_id.
                         bind_result (fromhex data_str) (\<lambda>data_bytes.
                           Inr (can_report can_id data_len data_bytes))))))
                [ValueError, IndexError]
                (Inr (''[CAN-ASCII MAL FORMADO] '' @ line @ NL)))"

subsection \<open>JSON lines\<close>

text \<open>
  The \<open>json\<close> module is not part of the program: \<open>loads\<close> stands for \<open>json.loads\<close> and
  \<open>dumps\<close> for \<open>json.dumps(_, indent=2)\<close>, each returning a value or raising.
\<close>

definition parse_json_line ::
  "(string \<Rightarrow> 'j result) \<Rightarrow> ('j \<Rightarrow> string result) \<Rightarrow> string \<Rightarrow> string result" where
  "parse_json_line loads dumps line0 =
     (let line = py_strip line0
      in if \<not> startswith line (CHR ''{'') \<or> \<not> endswith line (CHR ''}'')
         then Inr (''[NO JSON] '' @ line @ NL)
         else try_except
                (bind_result (loads line) (\<lambda>data.
                 bind_result (dumps data) (\<lambda>pretty_json.
                   Inr (''--- JSON Object ---'' @ NL @ pretty_json @ NL @
                        ''-------------------'' @ NL))))
                [JSONDecodeError]
                (Inr (''[JSON MAL FORMADO] '' @ line @ NL)))"

section \<open>Timestamps\<close>

text \<open>
  One reading of \<open>datetime.datetime.now()\<close>, as the renderings the program asks of it:
  \<open>isoformat(sep='T', timespec='milliseconds')\<close>, \<open>strftime(fmt)\<close> and
  \<open>astimezone().strftime(fmt)\<close>. The calendar arithmetic behind them is the library's.
\<close>

record clock =
  isoformat_ms :: string
  strftime :: "string \<Rightarrow> string"
  astimezone_strftime :: "string \<Rightarrow> string"

text \<open>The slice \<open>s[:-3]\<close>.\<close>

definition drop_last3 :: "string \<Rightarrow> string" where
  "drop_last3 s = take (length s - 3) s"

definition get_timestamp :: "clock \<Rightarrow> string \<Rightarrow> string \<Rightarrow> string" where
  "get_timestamp now format_choice delimiter =
     (if format_choice = ''none'' then []
      else
        let formats =
              [(''ISO 8601'', isoformat_ms now),
               (''Date|Time|Timezone'',
                  drop_last3 (astimezone_strftime now ''%Y-%m-%d %H:%M:%S.%f'') @ '' %Z''),
               (''Date|Time'', drop_last3 (strftime now ''%Y-%m-%d %H:%M:%S.%f'')),
               (''Time'', drop_last3 (strftime now ''%H:%M:%S.%f'')),
               (''Mod. Julian Date'', ''No implementado''),
               (''Year|Day of year|Time'', drop_last3 (strftime now ''%Y %j %H:%M:%S.%f'')),
               (''yyyy|MM|dd|HH|mm|ss'', strftime now ''%Y %m %d %H %M %S'')];
            timestamp = (case map_of formats format_choice of Some t \<Rightarrow> t | None \<Rightarrow> [])
        in if timestamp \<noteq> []
           then
             let delimiters = [(''blank'', '' ''), (''komma'', '',''), (''semicolon'', '';''),
                               (''none'', [])]
             in timestamp @ (case map_of delimiters delimiter of Some d \<Rightarrow> d | None \<Rightarrow> '' '')
           else [])"

text \<open>What the \<open>k\<close>-th call of \<open>get_timestamp\<close> in a session sees: the clock, and the
  format and delimiter selected at that moment.\<close>

record stamp_source =
  now_at :: clock
  format_choice_at :: string
  delimiter_at :: string

definition timestamp_of :: "(nat \<Rightarrow> stamp_source) \<Rightarrow> nat \<Rightarrow> string" where
  "timestamp_of src k =
     get_timestamp (now_at (src k)) (format_choice_at (src k)) (delimiter_at (src k))"

section \<open>Line reassembly\<close>

text \<open>
  The loop shared by the log/decode thread and the console mode:
  \<^verbatim>\<open>while '\n' in line_buffer: line, line_buffer = line_buffer.split('\n', 1); body\<close>.
  \<open>body\<close> acts on the rest of the state and may raise. The loop returns the buffer that is
  left and the state.
\<close>

function while_lines ::
  "(string \<Rightarrow> 's \<Rightarrow> 's result) \<Rightarrow> string \<Rightarrow> 's \<Rightarrow> (string \<times> 's) result" where
  "while_lines body line_buffer s =
     (if CHR 0x0A \<in> set line_buffer
      then (case py_split1 (CHR 0x0A) line_buffer of
              [line, rest] \<Rightarrow>
                (case body line s of
                   Inl e \<Rightarrow> Inl e
                 | Inr s' \<Rightarrow> while_lines body rest s')
            | _ \<Rightarrow> Inl ValueError)
      else Inr (line_buffer, s))"
  by pat_completeness auto
termination
proof (relation "measure (\<lambda>(body, line_buffer, s). length line_buffer)", goal_cases)
  case 1
  show ?case by simp
next
  case (2 body line_buffer s line rests rest tail s')
  have "length (dropWhile (\<lambda>x. x \<noteq> CHR 0x0A) line_buffer) \<le> length line_buffer"
    by (rule length_dropWhile_le)
  moreover have "0 < length line_buffer"
    using 2(1) by (cases line_buffer) simp_all
  moreover have "length rest = length (dropWhile (\<lambda>x. x \<noteq> CHR 0x0A) line_buffer) - 1"
    using 2 by (auto simp: py_split1_def)
  ultimately have "length rest < length line_buffer"
    by arith
  then show ?case by simp
qed

declare while_lines.simps [simp del]

text \<open>A body that only records the line it is given.\<close>

definition collect :: "string \<Rightarrow> string list \<Rightarrow> string list result" where
  "collect line acc = Inr (acc @ [line])"

text \<open>Feeding text chunks in order: \<open>line_buffer += chunk\<close>, then the loop.\<close>

fun feed_chunks :: "string list \<Rightarrow> string \<times> string list \<Rightarrow> (string \<times> string list) result" where
  "feed_chunks [] st = Inr st"
| "feed_chunks (chunk # chunks) (line_buffer, emitted) =
     (case while_lines collect (line_buffer @ chunk) emitted of
        Inl e \<Rightarrow> Inl e
      | Inr st \<Rightarrow> feed_chunks chunks st)"

section \<open>The log/decode thread\<close>

datatype file_op = Write string | Flush | Close

datatype decoder_fn = LineDecoder "string \<Rightarrow> string result"
                    | FrameDecoder "byte list \<Rightarrow> string result"

definition DECODERS ::
  "(string \<Rightarrow> 'j result) \<Rightarrow> ('j \<Rightarrow> string result) \<Rightarrow> (string \<times> decoder_fn) list" where
  "DECODERS loads dumps =
     [(''NMEA-0183'', LineDecoder parse_nmea_sentence),
      (''Modbus-RTU'', FrameDecoder parse_modbus_rtu),
      (''CAN-ASCII'', LineDecoder parse_can_ascii),
      (''JSON-line'', LineDecoder (parse_json_line loads dumps))]"

text \<open>
  What a session fixes: the incremental decoder of the chosen encoding (\<open>decode\<close>, with its
  state), whether the log file is in use (\<open>log_to_file and logfile\<close>: the box is ticked and
  the file could be opened), the protocol name, the decoder found for it
  (\<open>DECODERS.get(protocol)\<close>), and the source of the timestamps.
\<close>

record 'd session =
  decode :: "'d \<Rightarrow> byte list \<Rightarrow> string \<times> 'd"
  log_to_file :: bool
  protocol :: string
  parser :: "decoder_fn option"
  stamp_src :: "nat \<Rightarrow> stamp_source"

record 'd log_state =
  decoder :: 'd
  line_buffer :: string
  file_ops :: "file_op list"
  decoded_queue :: "string list"
  stamps :: nat

text \<open>\<open>logfile.write(f"{timestamp}{text}")\<close>, with \<open>logfile.flush()\<close> where the source
  has it.\<close>

definition write_log :: "'d session \<Rightarrow> string \<Rightarrow> bool \<Rightarrow> 'd log_state \<Rightarrow> 'd log_state" where
  "write_log ses text flush s =
     s\<lparr>file_ops := file_ops s @
                      [Write (timestamp_of (stamp_src ses) (stamps s) @ text)] @
                      (if flush then [Flush] else []),
       stamps := Suc (stamps s)\<rparr>"

text \<open>The body of the line loop in \<open>_log_and_decode_task\<close>.\<close>

definition log_line :: "'d session \<Rightarrow> string \<Rightarrow> 'd log_state \<Rightarrow> 'd log_state result" where
  "log_line ses line s =
     (let full_line = line @ NL;
          s1 = (if log_to_file ses then write_log ses (line @ NL) True s else s)
      in case parser ses of
           None \<Rightarrow> Inr s1
         | Some (LineDecoder p) \<Rightarrow>
             bind_result (p full_line) (\<lambda>decoded_line.
               Inr (s1\<lparr>decoded_queue := decoded_queue s1 @ [decoded_line]\<rparr>))
         | Some (FrameDecoder p) \<Rightarrow> Inl TypeError)"

text \<open>One chunk taken from \<open>log_queue\<close>.\<close>

definition handle_chunk :: "'d session \<Rightarrow> byte list \<Rightarrow> 'd log_state \<Rightarrow> 'd log_state result" where
  "handle_chunk ses raw_chunk s =
     (if protocol ses = ''Modbus-RTU''
      then (case parser ses of
              None \<Rightarrow> Inr s
            | Some (FrameDecoder p) \<Rightarrow>
                bind_result (p raw_chunk) (\<lambda>decoded_line.
                  let s1 = s\<lparr>decoded_queue := decoded_queue s @ [decoded_line]\<rparr>
                  in Inr (if log_to_file ses then write_log ses decoded_line False s1 else s1))
            | Some (LineDecoder p) \<Rightarrow> Inl TypeError)
      else
        let (decoded_string, d') = decode ses (decoder s) raw_chunk
        in bind_result
             (while_lines (log_line ses) (line_buffer s @ decoded_string) (s\<lparr>decoder := d'\<rparr>))
             (\<lambda>(rest, s'). Inr (s'\<lparr>line_buffer := rest\<rparr>)))"

text \<open>
  The thread takes items from \<open>log_queue\<close> until the sentinel \<open>None\<close>, then closes the
  file and returns. With no item left it waits in \<open>log_queue.get()\<close>.
\<close>

datatype 'a thread_end = Returned 'a | Waiting 'a

fun consume ::
  "'d session \<Rightarrow> byte list option list \<Rightarrow> 'd log_state \<Rightarrow> 'd log_state thread_end result" where
  "consume ses [] s = Inr (Waiting s)"
| "consume ses (None # items) s =
     Inr (Returned (if log_to_file ses then s\<lparr>file_ops := file_ops s @ [Close]\<rparr> else s))"
| "consume ses (Some raw_chunk # items) s =
     (case handle_chunk ses raw_chunk s of
        Inl e \<Rightarrow> Inl e
      | Inr s' \<Rightarrow> consume ses items s')"

definition initial_state :: "'d \<Rightarrow> 'd log_state" where
  "initial_state d0 =
     \<lparr>decoder = d0, line_buffer = [], file_ops = [], decoded_queue = [], stamps = 0\<rparr>"

definition log_and_decode_task ::
  "'d session \<Rightarrow> 'd \<Rightarrow> byte list option list \<Rightarrow> 'd log_state thread_end result" where
  "log_and_decode_task ses d0 items = consume ses items (initial_state d0)"

section \<open>Console mode\<close>

text \<open>
  The log-file part of \<open>console_output\<close> and the \<open>finally\<close> block of \<open>run_cli_mode\<close>
  (the echo to the terminal is left out). The console mode has no protocol decoder.
\<close>

definition cli_line :: "'d session \<Rightarrow> string \<Rightarrow> 'd log_state \<Rightarrow> 'd log_state result" where
  "cli_line ses line s = Inr (write_log ses (line @ NL) True s)"

definition console_output :: "'d session \<Rightarrow> byte list \<Rightarrow> 'd log_state \<Rightarrow> 'd log_state result" where
  "console_output ses raw_chunk s =
     (let (decoded_string, d') = decode ses (decoder s) raw_chunk;
          s1 = s\<lparr>decoder := d'\<rparr>
      in if log_to_file ses
         then bind_result (while_lines (cli_line ses) (line_buffer s1 @ decoded_string) s1)
                (\<lambda>(rest, s'). Inr (s'\<lparr>line_buffer := rest\<rparr>))
         else Inr s1)"

definition cli_finally :: "'d session \<Rightarrow> 'd log_state \<Rightarrow> 'd log_state" where
  "cli_finally ses s =
     (if log_to_file ses
      then (let s1 = (if line_buffer s \<noteq> []
                      then write_log ses (py_strip (line_buffer s) @ NL) False s else s)
            in s1\<lparr>file_ops := file_ops s1 @ [Close]\<rparr>)
      else s)"

fun cli_chunks :: "'d session \<Rightarrow> byte list list \<Rightarrow> 'd log_state \<Rightarrow> 'd log_state result" where
  "cli_chunks ses [] s = Inr s"
| "cli_chunks ses (raw_chunk # chunks) s =
     (case console_output ses raw_chunk s of
        Inl e \<Rightarrow> Inl e
      | Inr s' \<Rightarrow> cli_chunks ses chunks s')"

definition run_cli_mode :: "'d session \<Rightarrow> 'd \<Rightarrow> byte list list \<Rightarrow> 'd log_state result" where
  "run_cli_mode ses d0 chunks =
     (case cli_chunks ses chunks (initial_state d0) of
        Inl e \<Rightarrow> Inl e
      | Inr s \<Rightarrow> Inr (cli_finally ses s))"

section \<open>The read loop and the queues of the window\<close>

datatype read_event = ReadOK "byte list" | SerialException

definition error_chunk :: "byte list" where
  "error_chunk = map (\<lambda>c. of_char c) (NL @ ''--- ERROR: Puerto serie desconectado ---'' @ NL)"

text \<open>
  \<open>SerialHandler._read_task\<close> over the outcomes of its reads (an empty \<open>ReadOK\<close> is a
  poll that found nothing): the pair is the flag \<open>is_reading\<close> and the state of whatever
  \<open>output_callback\<close> writes to.
\<close>

fun read_task ::
  "(byte list \<Rightarrow> 'q \<Rightarrow> 'q) option \<Rightarrow> read_event list \<Rightarrow> bool \<times> 'q \<Rightarrow> bool \<times> 'q" where
  "read_task output_callback [] (is_reading, q) = (is_reading, q)"
| "read_task output_callback (ev # evs) (is_reading, q) =
     (if \<not> is_reading then (is_reading, q)
      else (case ev of
              ReadOK data \<Rightarrow>
                read_task output_callback evs
                  (is_reading,
                   (case output_callback of
                      Some put \<Rightarrow> if data \<noteq> [] then put data q else q
                    | None \<Rightarrow> q))
            | SerialException \<Rightarrow>
                (False, (case output_callback of Some put \<Rightarrow> put error_chunk q | None \<Rightarrow> q))))"

record gui_state =
  gui_queue :: "byte list list"
  log_queue :: "byte list option list"
  displayed :: "byte list list"
  reading :: bool

text \<open>The window passes \<open>gui_queue.put\<close> as \<open>output_callback\<close>.\<close>

definition gui_read_task :: "read_event list \<Rightarrow> gui_state \<Rightarrow> gui_state" where
  "gui_read_task evs g =
     (let (r, q) = read_task (Some (\<lambda>data q. q @ [data])) evs (reading g, gui_queue g)
      in g\<lparr>reading := r, gui_queue := q\<rparr>)"

text \<open>\<open>_process_gui_queue\<close>: \<open>forward\<close> is \<open>ck_logfile_var.get() or protocol != "None"\<close>.\<close>

definition process_gui_queue :: "bool \<Rightarrow> gui_state \<Rightarrow> gui_state" where
  "process_gui_queue forward g =
     g\<lparr>log_queue := log_queue g @ (if forward then map Some (gui_queue g) else []),
       displayed := displayed g @ gui_queue g,
       gui_queue := []\<rparr>"

text \<open>\<open>SerialLoggerApp.close_port\<close>, and the window-close handler, which calls it only
  while \<open>is_reading\<close> is set.\<close>

definition close_port :: "gui_state \<Rightarrow> gui_state" where
  "close_port g = g\<lparr>reading := False, log_queue := log_queue g @ [None]\<rparr>"

definition on_closing :: "gui_state \<Rightarrow> gui_state" where
  "on_closing g = (if reading g then close_port g else g)"

section \<open>Sending and the command history\<close>

text \<open>\<open>deque(maxlen=n).append(x)\<close>.\<close>

definition deque_append :: "nat \<Rightarrow> 'a list \<Rightarrow> 'a \<Rightarrow> 'a list" where
  "deque_append maxlen d x =
     (if maxlen = 0 then []
      else if length d < maxlen then d @ [x]
      else drop (Suc (length d) - maxlen) (d @ [x]))"

text \<open>The port as \<open>SerialHandler.write_data\<close> sees it: open or not, and the
  \<open>SerialException\<close> its \<open>write\<close> raises, if any. The data are a \<open>str\<close>, encoded with
  the codec chosen (\<open>encode\<close> stands for \<open>str.encode(encoding)\<close>, which may raise), or
  \<open>bytes\<close>. Only \<open>SerialException\<close> is caught.\<close>

record port =
  is_open :: bool
  write_raises :: "string option"

datatype payload = Str string | Bytes "byte list"

definition write_data ::
  "port \<Rightarrow> (string \<Rightarrow> byte list result) \<Rightarrow> payload \<Rightarrow> (bool \<times> string option) result" where
  "write_data p encode data =
     (if is_open p
      then bind_result (case data of Str text \<Rightarrow> encode text | Bytes raw \<Rightarrow> Inr raw)
             (\<lambda>raw. case write_raises p of
                      None \<Rightarrow> Inr (True, None)
                    | Some e \<Rightarrow> Inr (False, Some (''Error al enviar datos: '' @ e)))
      else Inr (False, Some (''Puerto no est'' @ [CHR 0xE1] @ '' abierto.'')))"

record send_state =
  command_history :: "string list"
  history_index :: int
  entry_input :: string
  shown_sent :: nat

datatype send_outcome = Ignored | FormatError | Sent | SendFailed "string option"
                      | Raised py_error

definition line_ending_map :: "(string \<times> string) list" where
  "line_ending_map =
     [(''None'', []),
      (''NL ('' @ [CHR 0x5C] @ ''n)'', NL),
      (''CR ('' @ [CHR 0x5C] @ ''r)'', [CHR 0x0D]),
      (''CR+LF ('' @ [CHR 0x5C] @ ''r'' @ [CHR 0x5C] @ ''n)'', [CHR 0x0D, CHR 0x0A])]"

text \<open>
  \<open>_send_data\<close>: \<open>button_disabled\<close> is the state of the send button, \<open>hex_input\<close> the
  hex box, \<open>line_ending\<close> the selection of the line-ending box;
  \<open>"".join(s.split())\<close> drops every white-space character. An exception that
  \<open>write_data\<close> lets through leaves \<open>_send_data\<close> with the history already updated.
\<close>

definition send_data ::
  "bool \<Rightarrow> bool \<Rightarrow> string \<Rightarrow> (string \<Rightarrow> byte list result) \<Rightarrow> port \<Rightarrow> send_state \<Rightarrow>
   send_state \<times> send_outcome" where
  "send_data button_disabled hex_input line_ending encode p s =
     (if button_disabled then (s, Ignored)
      else
        let data_to_send_str = entry_input s
        in if data_to_send_str = [] then (s, Ignored)
           else
             let history =
                   (if command_history s = [] \<or> last (command_history s) \<noteq> data_to_send_str
                    then deque_append 50 (command_history s) data_to_send_str
                    else command_history s);
                 s1 = s\<lparr>command_history := history, history_index := int (length history)\<rparr>;
                 finish = (\<lambda>r. case r of
                             Inl e \<Rightarrow> (s1, Raised e)
                           | Inr (success, message) \<Rightarrow>
                               if success
                               then (s1\<lparr>entry_input := [], shown_sent := Suc (shown_sent s1)\<rparr>,
                                     Sent)
                               else (s1, SendFailed message))
             in if hex_input
                then (case fromhex (filter (\<lambda>c. \<not> is_space c) data_to_send_str) of
                        Inl e \<Rightarrow> (s1, FormatError)
                      | Inr data_to_write \<Rightarrow> finish (write_data p encode (Bytes data_to_write)))
                else
                  let ending = (case map_of line_ending_map line_ending of
                                  Some e \<Rightarrow> e | None \<Rightarrow> [])
                  in finish (write_data p encode (Str (data_to_send_str @ ending))))"

section \<open>Modbus CRC and frame check\<close>

subsection \<open>The integer register of the code is the 16-bit register of the standard\<close>

lemma even_uint16: "even (uint r) = even r" for r :: "16 word"
  by (metis even_of_int_iff word_of_int_uint)

lemma low_bit_refine: "(uint r AND 1 \<noteq> 0) = bit r 0" for r :: "16 word"
  by (simp add: and_one_eq bit_0 mod2_eq_if even_uint16 flip: even_iff_mod_2_eq_zero)

lemma shift_refine: "crc_shift (uint r) = uint (modbus_shift r)"
proof -
  have "take_bit 16 (uint r) = uint r"
    by (rule take_bit_int_eq_self) (use uint_lt2p [of r] in simp_all)
  then have b: "drop_bit 1 (uint r) = uint (drop_bit 1 r)"
    by (simp add: unsigned_drop_bit_eq)
  have c: "uint (w XOR (0xA001 :: 16 word)) = uint w XOR 0xA001" for w
    by (simp add: uint_xor)
  show ?thesis
    unfolding crc_shift_def modbus_shift_def using low_bit_refine [of r] b c by simp
qed

lemma shift_pow_refine: "(crc_shift ^^ n) (uint r) = uint ((modbus_shift ^^ n) r)"
  by (induction n) (simp_all add: shift_refine)

lemma byte_refine: "crc_byte b (uint r) = uint ((modbus_shift ^^ 8) (r XOR ucast b))"
proof -
  have "take_bit 16 (uint b) = uint b"
    by (rule take_bit_int_eq_self) (use uint_lt2p [of b] in simp_all)
  then have "uint r XOR uint b = uint (r XOR ucast b)" 
    by (simp add: uint_xor unsigned_ucast_eq)
  then show ?thesis
    unfolding crc_byte_def by (simp only: shift_pow_refine)
qed

lemma fold_refine:
  "fold crc_byte data (uint r) = uint (fold (\<lambda>b r. (modbus_shift ^^ 8) (r XOR ucast b)) data r)"
  by (induction data arbitrary: r) (simp_all add: byte_refine)

lemma crc_refines_spec: "calculate_crc16 data = uint (crc16_modbus_spec data)"
proof -
  have "(0xFFFF :: int) = uint (0xFFFF :: 16 word)" by simp
  then show ?thesis
    unfolding calculate_crc16_def crc16_modbus_spec_def by (simp only: fold_refine)
qed

lemma crc_range: "0 \<le> calculate_crc16 data \<and> calculate_crc16 data < 65536"
  using uint_lt2p [of "crc16_modbus_spec data"] by (simp add: crc_refines_spec)

lemma le2_roundtrip:
  assumes "0 \<le> n" "n < 65536"
  shows "from_bytes_le [word_of_int (n mod 256), word_of_int (n div 256) :: byte] = n"
proof -
  have "n div 256 < 256" using assms by simp
  moreover have "0 \<le> n div 256" using assms by simp
  ultimately have "uint (word_of_int (n div 256) :: byte) = n div 256"
    by (simp add: uint_word_of_int take_bit_eq_mod)
  moreover have "uint (word_of_int (n mod 256) :: byte) = n mod 256"
    by (simp add: uint_word_of_int take_bit_eq_mod)
  ultimately show ?thesis by simp
qed

lemma crc_shift_let:
  "crc_shift c = (let x = c in if x AND 1 \<noteq> 0 then drop_bit 1 x XOR 0xA001 else drop_bit 1 x)"
  by (simp add: crc_shift_def)

lemma crc_byte_unrolled:
  "crc_byte b c =
     crc_shift (crc_shift (crc_shift (crc_shift (crc_shift (crc_shift (crc_shift (crc_shift
       (c XOR uint b))))))))"
  by (simp add: crc_byte_def eval_nat_numeral)

lemma index_append_0: "2 \<le> length b \<Longrightarrow> index (b @ e) 0 = Inr (b ! 0)"
  by (cases b) (simp_all add: index_def)

lemma index_append_1: "2 \<le> length b \<Longrightarrow> index (b @ e) 1 = Inr (b ! 1)"
  by (simp add: index_def nth_append)

text \<open>
  C1 (as amended). \<open>calculate_crc16\<close> computes the CRC-16/MODBUS register (initial value
  \<open>0xFFFF\<close>, polynomial \<open>0xA001\<close>, the byte exclusive-ored into the low byte, eight
  shift/exclusive-or rounds). Its value always fits two bytes, and for every byte sequence
  \<open>b\<close> of at least two bytes the frame \<open>b\<close> followed by the little-endian encoding of
  \<open>calculate_crc16 b\<close> is decoded by \<open>parse_modbus_rtu\<close> with CRC status \<open>OK\<close>.
\<close>

theorem crc_frame_ok:
  assumes "2 \<le> length b"
  shows "calculate_crc16 b = uint (crc16_modbus_spec b) \<and>
         to_bytes_le2 (calculate_crc16 b) =
           Inr [word_of_int (calculate_crc16 b mod 256), word_of_int (calculate_crc16 b div 256)] \<and>
         parse_modbus_rtu
           (b @ [word_of_int (calculate_crc16 b mod 256), word_of_int (calculate_crc16 b div 256)]) =
           Inr (modbus_report (uint (b ! 0)) (uint (b ! 1)) (drop 2 b) (calculate_crc16 b) ''OK'')"
proof -
  let ?c = "calculate_crc16 b"
  let ?le = "[word_of_int (?c mod 256), word_of_int (?c div 256)] :: byte list"
  have rng: "0 \<le> ?c" "?c < 65536" using crc_range [of b] by simp_all
  have enc: "to_bytes_le2 ?c = Inr ?le"
    using rng by (simp add: to_bytes_le2_def)
  have len: "\<not> length (b @ ?le) < 4" "length (b @ ?le) - 2 = length b"
    using assms by simp_all
  have i0: "index (b @ ?le) 0 = Inr (b ! 0)" and i1: "index (b @ ?le) 1 = Inr (b ! 1)"
    by (rule index_append_0 [OF assms], rule index_append_1 [OF assms])
  have tk: "take (length b) (b @ ?le) = b" and dr: "drop (length b) (b @ ?le) = ?le"
    by simp_all
  have rx: "from_bytes_le ?le = ?c"
    using le2_roundtrip [OF rng] by simp
  have "parse_modbus_rtu (b @ ?le) =
          Inr (modbus_report (uint (b ! 0)) (uint (b ! 1)) (drop 2 b) ?c ''OK'')"
    unfolding parse_modbus_rtu_def
    by (simp only: len if_False i0 i1 bind_result_def sum.case Let_def tk dr rx simp_thms if_True)
  with enc crc_refines_spec show ?thesis by blast
qed

text \<open>C1, the amended statement at the frame \<open>01 03 02 00 0A\<close> (CRC bytes \<open>38 43\<close>).\<close>

theorem crc_frame_ok_witness:
  "2 \<le> length [1, 3, 2, 0, 0x0A :: byte] \<and>
   calculate_crc16 [1, 3, 2, 0, 0x0A] = 0x4338 \<and>
   to_bytes_le2 (calculate_crc16 [1, 3, 2, 0, 0x0A]) = Inr [0x38, 0x43] \<and>
   parse_modbus_rtu [1, 3, 2, 0, 0x0A, 0x38, 0x43] =
     Inr (modbus_report 1 3 [2, 0, 0x0A] 0x4338 ''OK'')"
proof -
  have c: "calculate_crc16 [1, 3, 2, 0, 0x0A] = 0x4338"
    by (simp add: calculate_crc16_def crc_byte_unrolled crc_shift_let)
  have "2 \<le> length [1, 3, 2, 0, 0x0A :: byte]" by simp
  from crc_frame_ok [OF this] show ?thesis
    by (simp add: c to_bytes_le2_def)
qed

text \<open>
  C1 as stated fails for sequences shorter than two bytes: the frame built from the empty
  sequence is \<open>FF FF\<close>, and frames under four bytes get the too-short report, which
  carries no CRC status.
\<close>

theorem short_frame_counterexample:
  "to_bytes_le2 (calculate_crc16 []) = Inr [0xFF, 0xFF] \<and>
   parse_modbus_rtu ([] @ [0xFF, 0xFF]) = Inr (''[TRAMA MODBUS MUY CORTA: FF FF]'' @ NL)"
  by (simp add: calculate_crc16_def to_bytes_le2_def parse_modbus_rtu_def bytes_hex_upper_def
      py_join_def format_X_def zfill_def hex_digits.simps hex_char_def)

section \<open>NMEA-0183 checksum validation\<close>

lemma split_ne: "py_split c s \<noteq> []"
  by (induction s) (auto split: list.splits)

lemma split_none: "c \<notin> set y \<Longrightarrow> py_split c y = [y]"
  by (induction y) auto

lemma split_single: "c \<notin> set x \<Longrightarrow> c \<notin> set y \<Longrightarrow> py_split c (x @ c # y) = [x, y]"
  by (induction x) (auto simp: split_none)

lemma split_length: "length (py_split c s) = Suc (count_list s c)"
  by (induction s) (auto split: list.splits simp: split_ne)

lemma hex_digit_plain:
  assumes "digit_value c < 16"
  shows "c \<noteq> CHR ''_''" "c \<noteq> CHR ''+''" "c \<noteq> CHR ''-''" "c \<noteq> CHR ''x''" "c \<noteq> CHR ''X''"
    "\<not> is_ascii_space c" "(of_char c :: nat) < 127" "(of_char c :: nat) \<noteq> 0"
  using assms by (auto simp: digit_value_def is_ascii_space_def Let_def split: if_splits)

lemma py_int16_two:
  assumes "digit_value a < 16" "digit_value b < 16"
  shows "py_int 16 [a, b] = Inr (int (16 * digit_value a + digit_value b))"
proof -
  note p = hex_digit_plain [OF assms(1)] hex_digit_plain [OF assms(2)]
  have "int_body 16 [a, b] = Inr (int (16 * digit_value a + digit_value b))"
    using p assms by (simp add: int_body_def startswith_def)
  then show ?thesis
    using p by (simp add: py_int_def)
qed

lemma hex_letter_case:
  fixes n :: nat
  assumes "65 \<le> n" "n \<le> 70"
  shows "digit_value (char_of (n + 32)) = digit_value (char_of n)"
proof -
  have "(n + 32) mod 256 = n + 32" "n mod 256 = n" using assms by simp_all
  then show ?thesis using assms by (simp add: digit_value_def)
qed


lemma py_int_raises_ValueError: "py_int base s = Inl e \<Longrightarrow> e = ValueError"
  by (auto simp: py_int_def int_body_def Let_def split: if_splits option.splits prod.splits)

lemma nmea_no_shape:
  assumes "py_strip line = s" "\<not> startswith s (CHR ''$'') \<or> CHR ''*'' \<notin> set s"
  shows "parse_nmea_sentence line = Inr (''[NO NMEA] '' @ s @ NL)"
  using assms by (auto simp: parse_nmea_sentence_def)

lemma nmea_many_stars:
  assumes "py_strip line = s" "startswith s (CHR ''$'')" "2 \<le> count_list s (CHR ''*'')"
  shows "parse_nmea_sentence line = Inr (''[FORMATO NMEA INV'' @ [CHR 0xC1] @ ''LIDO] '' @ s @ NL)"
proof -
  have "count_list s (CHR ''*'') \<noteq> 0" using assms(3) by simp
  then have "CHR ''*'' \<in> set s" by (simp add: count_list_0_iff)
  moreover have "length (py_split (CHR ''*'') s) \<noteq> 2"
    using assms(3) by (simp add: split_length)
  ultimately show ?thesis
    using assms(1,2) by (simp add: parse_nmea_sentence_def)
qed

lemma nmea_parts:
  assumes "s = CHR ''$'' # body @ CHR ''*'' # cs" "CHR ''*'' \<notin> set body" "CHR ''*'' \<notin> set cs"
  shows "startswith s (CHR ''$'')" "CHR ''*'' \<in> set s"
    "py_split (CHR ''*'') s = [CHR ''$'' # body, cs]"
proof -
  show "startswith s (CHR ''$'')" "CHR ''*'' \<in> set s"
    using assms(1) by (simp_all add: startswith_def)
  have "CHR ''*'' \<notin> set (CHR ''$'' # body)" using assms(2) by simp
  from split_single [OF this assms(3)] show "py_split (CHR ''*'') s = [CHR ''$'' # body, cs]"
    using assms(1) by simp
qed

lemma nmea_bad_checksum_text:
  assumes "py_strip line = s" "s = CHR ''$'' # body @ CHR ''*'' # cs"
    "CHR ''*'' \<notin> set body" "CHR ''*'' \<notin> set cs" "py_int 16 cs = Inl e"
  shows "parse_nmea_sentence line = Inr (''[CHECKSUM INV'' @ [CHR 0xC1] @ ''LIDO] '' @ s @ NL)"
proof -
  note p = nmea_parts [OF assms(2-4)]
  have e: "py_int 16 cs = Inl ValueError"
    using assms(5) py_int_raises_ValueError [OF assms(5)] by simp
  show ?thesis
    unfolding parse_nmea_sentence_def assms(1) Let_def
    by (simp add: p e is_instance_def)
qed

lemma nmea_mismatch:
  assumes "py_strip line = s" "s = CHR ''$'' # body @ CHR ''*'' # cs"
    "CHR ''*'' \<notin> set body" "CHR ''*'' \<notin> set cs" "py_int 16 cs = Inr r"
    "nmea_checksum body \<noteq> r"
  shows "parse_nmea_sentence line =
           Inr (''[ERROR CHECKSUM: Calc='' @ format_X 2 (nmea_checksum body) @
                '', Recib='' @ format_X 2 r @ ''] '' @ s @ NL)"
proof -
  note p = nmea_parts [OF assms(2-4)]
  show ?thesis
    unfolding parse_nmea_sentence_def assms(1) Let_def
    using assms(6) by (simp add: p assms(5))
qed


lemma index_raises: "index xs i = Inl e \<Longrightarrow> e = IndexError"
  by (auto simp: index_def split: if_splits)

lemma fstring_raises:
  assumes "\<forall>p \<in> set ps. \<forall>e. p = Inl e \<longrightarrow> e = IndexError" "fstring ps = Inl e"
  shows "e = IndexError"
  using assms by (induction ps) (auto split: sum.splits)

lemma gga_raises: "gga_report fs = Inl e \<Longrightarrow> e = IndexError"
  unfolding gga_report_def
  by (erule fstring_raises [rotated]) (auto simp: index_def map_sum_def split: if_splits)

lemma rmc_raises: "rmc_report fs = Inl e \<Longrightarrow> e = IndexError"
  unfolding rmc_report_def
  by (erule fstring_raises [rotated])
     (auto simp: index_def map_sum_def bind_result_def split: if_splits)

lemma try_index:
  assumes "\<And>e. body = Inl e \<Longrightarrow> e = IndexError"
  shows "try_except body [IndexError] (Inr h) = Inr (case body of Inr rep \<Rightarrow> rep | Inl e \<Rightarrow> h)"
  using assms by (cases body) (auto simp: try_except_def is_instance_def)

lemma checksum_is_xor:
  "nmea_checksum body = foldl (\<lambda>c ch. c XOR of_char ch) 0 body"
  by (simp add: nmea_checksum_def foldl_conv_fold)

lemma nmea_match:
  assumes "py_strip line = s" "s = CHR ''$'' # body @ CHR ''*'' # cs"
    "CHR ''*'' \<notin> set body" "CHR ''*'' \<notin> set cs" "py_int 16 cs = Inr r"
    "nmea_checksum body = r"
  shows "parse_nmea_sentence line =
           (let fs = py_split (CHR '','') body; msg_type = hd fs
            in if msg_type = ''GPGGA''
               then Inr (case gga_report fs of
                           Inr report \<Rightarrow> report
                         | Inl e \<Rightarrow> ''[GPGGA MAL FORMADO] '' @ s @ NL)
               else if msg_type = ''GPRMC''
               then Inr (case rmc_report fs of
                           Inr report \<Rightarrow> report
                         | Inl e \<Rightarrow> ''[GPRMC MAL FORMADO] '' @ s @ NL)
               else Inr (''[TIPO NMEA NO SOPORTADO: '' @ msg_type @ ''] '' @ s @ NL))"
proof -
  note p = nmea_parts [OF assms(2-4)]
  have ix: "index (py_split (CHR '','') body) 0 = Inr (hd (py_split (CHR '','') body))"
    using split_ne [of "CHR '',''" body]
    by (cases "py_split (CHR '','') body") (simp_all add: index_def)
  show ?thesis
    unfolding parse_nmea_sentence_def assms(1) Let_def
    by (simp add: p assms(5,6) ix bind_result_def try_index [OF gga_raises]
        try_index [OF rmc_raises] split: sum.splits)
qed

text \<open>
  C2. With \<open>s\<close> the line stripped of surrounding white space (a line that starts with \<open>$\<close>
  still does after stripping): a line that does not start with \<open>$\<close> or has no \<open>*\<close>, or has
  more than one \<open>*\<close>, gets a diagnostic report and no checksum comparison. For a line
  \<open>$body*cs\<close> with exactly one \<open>*\<close>, the computed checksum is the running exclusive-or
  of the code points of \<open>body\<close>, starting from 0. When \<open>cs\<close> reads as a hexadecimal number
  that differs from it, the report carries both the computed and the received value, each
  as two upper-case hex digits; when the two agree, no checksum error is reported and the
  sentence is decoded by its type field; when \<open>cs\<close> does not read as a number, the report
  says so. Two hex digits always read as their value, and a letter digit counts the same
  in either case.
\<close>

theorem nmea_checksum_validation:
  assumes "py_strip line = s"
  shows "(\<not> startswith s (CHR ''$'') \<or> CHR ''*'' \<notin> set s \<longrightarrow>
            parse_nmea_sentence line = Inr (''[NO NMEA] '' @ s @ NL)) \<and>
         (startswith s (CHR ''$'') \<and> 2 \<le> count_list s (CHR ''*'') \<longrightarrow>
            parse_nmea_sentence line = Inr (''[FORMATO NMEA INV'' @ [CHR 0xC1] @ ''LIDO] '' @ s @ NL)) \<and>
         (\<forall>body cs.
            s = CHR ''$'' # body @ CHR ''*'' # cs \<and> CHR ''*'' \<notin> set body \<and> CHR ''*'' \<notin> set cs \<longrightarrow>
            (let calc = foldl (\<lambda>c ch. c XOR of_char ch) (0 :: int) body
             in (\<forall>e. py_int 16 cs = Inl e \<longrightarrow>
                   parse_nmea_sentence line = Inr (''[CHECKSUM INV'' @ [CHR 0xC1] @ ''LIDO] '' @ s @ NL)) \<and>
                (\<forall>r. py_int 16 cs = Inr r \<and> calc \<noteq> r \<longrightarrow>
                   parse_nmea_sentence line =
                     Inr (''[ERROR CHECKSUM: Calc='' @ format_X 2 calc @
                          '', Recib='' @ format_X 2 r @ ''] '' @ s @ NL)) \<and>
                (\<forall>r. py_int 16 cs = Inr r \<and> calc = r \<longrightarrow>
                   parse_nmea_sentence line =
                     (let fs = py_split (CHR '','') body; msg_type = hd fs
                      in if msg_type = ''GPGGA''
                         then Inr (case gga_report fs of
                                     Inr report \<Rightarrow> report
                                   | Inl e \<Rightarrow> ''[GPGGA MAL FORMADO] '' @ s @ NL)
                         else if msg_type = ''GPRMC''
                         then Inr (case rmc_report fs of
                                     Inr report \<Rightarrow> report
                                   | Inl e \<Rightarrow> ''[GPRMC MAL FORMADO] '' @ s @ NL)
                         else Inr (''[TIPO NMEA NO SOPORTADO: '' @ msg_type @ ''] '' @ s @ NL))))) \<and>
         (\<forall>a b. digit_value a < 16 \<and> digit_value b < 16 \<longrightarrow>
            py_int 16 [a, b] = Inr (int (16 * digit_value a + digit_value b))) \<and>
         (\<forall>n::nat. 65 \<le> n \<and> n \<le> 70 \<longrightarrow>
            digit_value (char_of (n + 32)) = digit_value (char_of n))"
proof -
  have shape: "\<not> startswith s (CHR ''$'') \<or> CHR ''*'' \<notin> set s \<longrightarrow>
            parse_nmea_sentence line = Inr (''[NO NMEA] '' @ s @ NL)"
    using nmea_no_shape [OF assms] by blast
  have stars: "startswith s (CHR ''$'') \<and> 2 \<le> count_list s (CHR ''*'') \<longrightarrow>
            parse_nmea_sentence line = Inr (''[FORMATO NMEA INV'' @ [CHR 0xC1] @ ''LIDO] '' @ s @ NL)"
    using nmea_many_stars [OF assms] by blast
  have stage: "(let calc = foldl (\<lambda>c ch. c XOR of_char ch) (0 :: int) body
             in (\<forall>e. py_int 16 cs = Inl e \<longrightarrow>
                   parse_nmea_sentence line = Inr (''[CHECKSUM INV'' @ [CHR 0xC1] @ ''LIDO] '' @ s @ NL)) \<and>
                (\<forall>r. py_int 16 cs = Inr r \<and> calc \<noteq> r \<longrightarrow>
                   parse_nmea_sentence line =
                     Inr (''[ERROR CHECKSUM: Calc='' @ format_X 2 calc @
                          '', Recib='' @ format_X 2 r @ ''] '' @ s @ NL)) \<and>
                (\<forall>r. py_int 16 cs = Inr r \<and> calc = r \<longrightarrow>
                   parse_nmea_sentence line =
                     (let fs = py_split (CHR '','') body; msg_type = hd fs
                      in if msg_type = ''GPGGA''
                         then Inr (case gga_report fs of
                                     Inr report \<Rightarrow> report
                                   | Inl e \<Rightarrow> ''[GPGGA MAL FORMADO] '' @ s @ NL)
                         else if msg_type = ''GPRMC''
                         then Inr (case rmc_report fs of
                                     Inr report \<Rightarrow> report
                                   | Inl e \<Rightarrow> ''[GPRMC MAL FORMADO] '' @ s @ NL)
                         else Inr (''[TIPO NMEA NO SOPORTADO: '' @ msg_type @ ''] '' @ s @ NL))))"
    if h: "s = CHR ''$'' # body @ CHR ''*'' # cs \<and> CHR ''*'' \<notin> set body \<and> CHR ''*'' \<notin> set cs"
    for body cs
  proof -
    from h have f: "s = CHR ''$'' # body @ CHR ''*'' # cs" "CHR ''*'' \<notin> set body"
      "CHR ''*'' \<notin> set cs" by blast+
    show ?thesis
      unfolding Let_def checksum_is_xor [symmetric]
      using nmea_bad_checksum_text [OF assms f] nmea_mismatch [OF assms f]
        nmea_match [OF assms f, unfolded Let_def]
      by blast
  qed
  have two: "digit_value a < 16 \<and> digit_value b < 16 \<longrightarrow>
            py_int 16 [a, b] = Inr (int (16 * digit_value a + digit_value b))" for a b
    using py_int16_two by blast
  have cas: "65 \<le> n \<and> n \<le> 70 \<longrightarrow> digit_value (char_of (n + 32)) = digit_value (char_of n)"
    for n :: nat
    using hex_letter_case by blast
  from shape stars stage two cas show ?thesis by blast
qed

text \<open>C2 at a mismatching checksum, at a GGA sentence whose checksum agrees, at an
  unreadable checksum, a line without \<open>$\<close>, a line with two \<open>*\<close>, and the same checksum
  digits in both cases.\<close>

theorem nmea_checksum_validation_witness:
  "parse_nmea_sentence (''$GPGGA,1*56'' @ NL) =
     Inr (''[ERROR CHECKSUM: Calc=4B, Recib=56] $GPGGA,1*56'' @ NL) \<and>
   parse_nmea_sentence (''$GPGGA,123519,4807.038,N,01131.000,E,1,08,0.9,545.4,M,46.9,M,,*47'' @ NL) =
     Inr (''--- GGA: Global Positioning System Fix Data ---'' @ NL @ ''  Hora (UTC):      12:35:19'' @ NL @ ''  Latitud:         4807.038 N'' @ NL @ ''  Longitud:        01131.000 E'' @ NL @ ''  Calidad Fix:     1 (0=inv, 1=GPS, 2=DGPS)'' @ NL @ ''  Sat'' @ [CHR 0xE9] @ ''lites:       08'' @ NL @ ''  HDOP:            0.9'' @ NL @ ''  Altitud:         545.4 M'' @ NL @ ''--------------------------------------------------'' @ NL) \<and>
   parse_nmea_sentence ''$A*ZZ'' = Inr (''[CHECKSUM INV'' @ [CHR 0xC1] @ ''LIDO] '' @ ''$A*ZZ'' @ NL) \<and>
   parse_nmea_sentence ''A*41'' = Inr (''[NO NMEA] A*41'' @ NL) \<and>
   parse_nmea_sentence ''$A*4*1'' = Inr (''[FORMATO NMEA INV'' @ [CHR 0xC1] @ ''LIDO] '' @ ''$A*4*1'' @ NL) \<and>
   py_int 16 ''4b'' = Inr 75 \<and> py_int 16 ''4B'' = Inr 75"
proof -
  have s0: "py_strip (''$GPGGA,1*56'' @ NL) = ''$GPGGA,1*56''"
    and s1: "py_strip (''$GPGGA,123519,4807.038,N,01131.000,E,1,08,0.9,545.4,M,46.9,M,,*47'' @ NL) = ''$GPGGA,123519,4807.038,N,01131.000,E,1,08,0.9,545.4,M,46.9,M,,*47''"
    and s2: "py_strip ''$A*ZZ'' = ''$A*ZZ''"
    and s3: "py_strip ''A*41'' = ''A*41''" and s4: "py_strip ''$A*4*1'' = ''$A*4*1''"
    by (simp_all add: py_strip_def is_space_def)
  have dv: "digit_value (CHR ''4'') = 4" "digit_value (CHR ''5'') = 5" "digit_value (CHR ''6'') = 6"
    "digit_value (CHR ''7'') = 7" "digit_value (CHR ''b'') = 11" "digit_value (CHR ''B'') = 11"
    by (simp_all add: digit_value_def)
  note two = nmea_checksum_validation [OF s0, THEN conjunct2, THEN conjunct2, THEN conjunct2,
      THEN conjunct1, rule_format]
  have i56: "py_int 16 ''56'' = Inr 86" using two [of "CHR ''5''" "CHR ''6''"] by (simp add: dv)
  have i47: "py_int 16 ''47'' = Inr 71" using two [of "CHR ''4''" "CHR ''7''"] by (simp add: dv)
  have i4b: "py_int 16 ''4b'' = Inr 75" using two [of "CHR ''4''" "CHR ''b''"] by (simp add: dv)
  have i4B: "py_int 16 ''4B'' = Inr 75" using two [of "CHR ''4''" "CHR ''B''"] by (simp add: dv)
  have izz: "py_int 16 ''ZZ'' = Inl ValueError"
    by (simp add: py_int_def int_body_def startswith_def digit_value_def is_ascii_space_def)
  have fx: "format_X 2 75 = ''4B''" "format_X 2 86 = ''56''"
    by (simp_all add: format_X_def zfill_def hex_digits.simps hex_char_def)
  have "parse_nmea_sentence (''$GPGGA,1*56'' @ NL) =
          Inr (''[ERROR CHECKSUM: Calc=4B, Recib=56] $GPGGA,1*56'' @ NL)"
    using nmea_checksum_validation [OF s0, THEN conjunct2, THEN conjunct2, THEN conjunct1,
        rule_format, of "''GPGGA,1''" "''56''", unfolded Let_def, THEN conjunct2, THEN conjunct1,
        rule_format, of 86]
    by (simp add: i56 fx)
  moreover have "parse_nmea_sentence (''$GPGGA,123519,4807.038,N,01131.000,E,1,08,0.9,545.4,M,46.9,M,,*47'' @ NL) = Inr (''--- GGA: Global Positioning System Fix Data ---'' @ NL @ ''  Hora (UTC):      12:35:19'' @ NL @ ''  Latitud:         4807.038 N'' @ NL @ ''  Longitud:        01131.000 E'' @ NL @ ''  Calidad Fix:     1 (0=inv, 1=GPS, 2=DGPS)'' @ NL @ ''  Sat'' @ [CHR 0xE9] @ ''lites:       08'' @ NL @ ''  HDOP:            0.9'' @ NL @ ''  Altitud:         545.4 M'' @ NL @ ''--------------------------------------------------'' @ NL)"
    using nmea_checksum_validation [OF s1, THEN conjunct2, THEN conjunct2, THEN conjunct1,
        rule_format, of "''GPGGA,123519,4807.038,N,01131.000,E,1,08,0.9,545.4,M,46.9,M,,''" "''47''",
        unfolded Let_def, THEN conjunct2, THEN conjunct2, rule_format, of 71]
    by (simp add: i47 gga_report_def index_def)
  moreover have "parse_nmea_sentence ''$A*ZZ'' = Inr (''[CHECKSUM INV'' @ [CHR 0xC1] @ ''LIDO] '' @ ''$A*ZZ'' @ NL)"
    using nmea_checksum_validation [OF s2, THEN conjunct2, THEN conjunct2, THEN conjunct1,
        rule_format, of "''A''" "''ZZ''", unfolded Let_def, THEN conjunct1, rule_format,
        of ValueError]
    by (simp add: izz)
  moreover have "parse_nmea_sentence ''A*41'' = Inr (''[NO NMEA] A*41'' @ NL)"
    using nmea_checksum_validation [OF s3, THEN conjunct1] by (simp add: startswith_def)
  moreover have "parse_nmea_sentence ''$A*4*1'' = Inr (''[FORMATO NMEA INV'' @ [CHR 0xC1] @ ''LIDO] '' @ ''$A*4*1'' @ NL)"
    using nmea_checksum_validation [OF s4, THEN conjunct2, THEN conjunct1]
    by (simp add: startswith_def)
  ultimately show ?thesis using i4b i4B by blast
qed

section \<open>Line reassembly is lossless and independent of the chunking\<close>

lemma split1_parts:
  assumes "CHR 0x0A \<in> set buf"
  shows "\<exists>line rest. py_split1 (CHR 0x0A) buf = [line, rest] \<and> CHR 0x0A \<notin> set line \<and>
           buf = line @ NL @ rest"
proof -
  let ?l = "takeWhile (\<lambda>x. x \<noteq> CHR 0x0A) buf" and ?d = "dropWhile (\<lambda>x. x \<noteq> CHR 0x0A) buf"
  have d: "?d \<noteq> []" using assms by simp
  then have "hd ?d = CHR 0x0A" using hd_dropWhile [of "\<lambda>x. x \<noteq> CHR 0x0A" buf] by simp
  with d have "?d = NL @ tl ?d" by (cases ?d) simp_all
  then have "buf = ?l @ NL @ tl ?d" using takeWhile_dropWhile_id [of "\<lambda>x. x \<noteq> CHR 0x0A" buf] by simp
  moreover have "CHR 0x0A \<notin> set ?l" using set_takeWhileD by fastforce
  moreover have "py_split1 (CHR 0x0A) buf = [?l, tl ?d]" using assms by (simp add: py_split1_def)
  ultimately show ?thesis by blast
qed

lemma while_collect:
  "\<exists>rest ls. while_lines collect buf acc = Inr (rest, acc @ ls) \<and> CHR 0x0A \<notin> set rest \<and>
     (\<forall>l \<in> set ls. CHR 0x0A \<notin> set l) \<and> concat (map (\<lambda>l. l @ NL) ls) @ rest = buf"
proof (induction buf arbitrary: acc rule: length_induct)
  case (1 buf)
  show ?case
  proof (cases "CHR 0x0A \<in> set buf")
    case False
    then have "while_lines collect buf acc = Inr (buf, acc @ [])"
      by (simp add: while_lines.simps)
    with False show ?thesis by (intro exI [of _ buf] exI [of _ "[]"]) simp
  next
    case True
    from split1_parts [OF True] obtain line rest where
      sp: "py_split1 (CHR 0x0A) buf = [line, rest]" and lf: "CHR 0x0A \<notin> set line"
      and buf: "buf = line @ NL @ rest" by blast
    have "length rest < length buf" using buf by simp
    with 1 obtain r ls where
      ih: "while_lines collect rest (acc @ [line]) = Inr (r, (acc @ [line]) @ ls)"
      "CHR 0x0A \<notin> set r" "\<forall>l \<in> set ls. CHR 0x0A \<notin> set l"
      "concat (map (\<lambda>l. l @ NL) ls) @ r = rest" by blast
    have "while_lines collect buf acc = while_lines collect rest (acc @ [line])"
      using True sp by (subst while_lines.simps) (simp add: collect_def)
    with ih have "while_lines collect buf acc = Inr (r, acc @ (line # ls))" by simp
    moreover have "\<forall>l \<in> set (line # ls). CHR 0x0A \<notin> set l" using lf ih(3) by simp
    moreover have "concat (map (\<lambda>l. l @ NL) (line # ls)) @ r = buf" using ih(4) buf by simp
    ultimately show ?thesis using ih(2) by blast
  qed
qed

lemma takeWhile_upto:
  "c \<notin> set l \<Longrightarrow> takeWhile (\<lambda>x. x \<noteq> c) (l @ c # x) = l"
  by (induction l) auto

lemma cut_unique:
  assumes "CHR 0x0A \<notin> set l" "CHR 0x0A \<notin> set l'" "l @ NL @ x = l' @ NL @ x'"
  shows "l = l' \<and> x = x'"
proof -
  have "takeWhile (\<lambda>c. c \<noteq> CHR 0x0A) (l @ NL @ x) = l" "takeWhile (\<lambda>c. c \<noteq> CHR 0x0A) (l' @ NL @ x') = l'"
    using assms(1,2) by (simp_all add: takeWhile_upto)
  with assms(3) have "l = l'" by simp
  with assms(3) show ?thesis by simp
qed

lemma lines_unique:
  assumes "\<forall>l \<in> set ls. CHR 0x0A \<notin> set l" "\<forall>l \<in> set ls'. CHR 0x0A \<notin> set l"
    "CHR 0x0A \<notin> set r" "CHR 0x0A \<notin> set r'"
    "concat (map (\<lambda>l. l @ NL) ls) @ r = concat (map (\<lambda>l. l @ NL) ls') @ r'"
  shows "ls = ls' \<and> r = r'"
  using assms
proof (induction ls arbitrary: ls')
  case Nil
  show ?case
  proof (cases ls')
    case Nil with Nil.prems show ?thesis by simp
  next
    case (Cons a as)
    with Nil.prems(5) have "CHR 0x0A \<in> set r" by simp
    with Nil.prems(3) show ?thesis by simp
  qed
next
  case (Cons l ls)
  show ?case
  proof (cases ls')
    case Nil
    with Cons.prems(5) have "r' = l @ NL @ concat (map (\<lambda>l. l @ NL) ls) @ r" by simp
    then have "CHR 0x0A \<in> set r'" by simp
    with Cons.prems(4) show ?thesis by simp
  next
    case c: (Cons l' ls'')
    have e: "l @ NL @ (concat (map (\<lambda>l. l @ NL) ls) @ r) = l' @ NL @ (concat (map (\<lambda>l. l @ NL) ls'') @ r')"
      using Cons.prems(5) c by simp
    have "l = l' \<and> concat (map (\<lambda>l. l @ NL) ls) @ r = concat (map (\<lambda>l. l @ NL) ls'') @ r'"
      by (rule cut_unique) (use Cons.prems c e in simp_all)
    moreover from this have "ls = ls'' \<and> r = r'"
      using Cons.IH [of ls''] Cons.prems c by simp
    ultimately show ?thesis using c by simp
  qed
qed


lemma feed_decomp:
  "CHR 0x0A \<notin> set pending \<Longrightarrow> \<exists>p ls. feed_chunks chunks (pending, emitted) = Inr (p, emitted @ ls) \<and> CHR 0x0A \<notin> set p \<and>
     (\<forall>l \<in> set ls. CHR 0x0A \<notin> set l) \<and>
     concat (map (\<lambda>l. l @ NL) ls) @ p = pending @ concat chunks"
proof (induction chunks arbitrary: pending emitted)
  case Nil
  then show ?case by (intro exI [of _ pending] exI [of _ "[]"]) simp
next
  case (Cons chunk chunks)
  from while_collect [of "pending @ chunk" emitted] obtain r ls1 where
    w: "while_lines collect (pending @ chunk) emitted = Inr (r, emitted @ ls1)"
    "\<forall>l \<in> set ls1. CHR 0x0A \<notin> set l" "concat (map (\<lambda>l. l @ NL) ls1) @ r = pending @ chunk"
    and rf: "CHR 0x0A \<notin> set r"
    by blast
  from Cons.IH [OF rf, of "emitted @ ls1"] obtain p ls2 where
    f: "feed_chunks chunks (r, emitted @ ls1) = Inr (p, (emitted @ ls1) @ ls2)"
    "CHR 0x0A \<notin> set p" "\<forall>l \<in> set ls2. CHR 0x0A \<notin> set l"
    "concat (map (\<lambda>l. l @ NL) ls2) @ p = r @ concat chunks" by blast
  have "feed_chunks (chunk # chunks) (pending, emitted) = Inr (p, emitted @ (ls1 @ ls2))"
    using w(1) f(1) by simp
  moreover have "\<forall>l \<in> set (ls1 @ ls2). CHR 0x0A \<notin> set l" using w(2) f(3) by auto
  moreover have "concat (map (\<lambda>l. l @ NL) (ls1 @ ls2)) @ p = pending @ concat (chunk # chunks)"
  proof -
    have "concat (map (\<lambda>l. l @ NL) (ls1 @ ls2)) @ p =
            concat (map (\<lambda>l. l @ NL) ls1) @ (concat (map (\<lambda>l. l @ NL) ls2) @ p)" by simp
    also have "\<dots> = (concat (map (\<lambda>l. l @ NL) ls1) @ r) @ concat chunks" by (simp only: f(4) append_assoc)
    also have "\<dots> = pending @ concat (chunk # chunks)" by (simp only: w(3)) simp
    finally show ?thesis .
  qed
  ultimately show ?case using f(2) by blast
qed


lemma count_lines:
  "\<forall>l \<in> set ls. CHR 0x0A \<notin> set l \<Longrightarrow> CHR 0x0A \<notin> set r \<Longrightarrow>
   count_list (concat (map (\<lambda>l. l @ NL) ls) @ r) (CHR 0x0A) = length ls"
  by (induction ls) (simp_all add: count_list_0_iff)

lemma pending_is_tail:
  assumes "CHR 0x0A \<notin> set r"
  shows "rev (takeWhile (\<lambda>c. c \<noteq> CHR 0x0A) (rev (concat (map (\<lambda>l. l @ NL) ls) @ r))) = r"
proof (cases ls rule: rev_cases)
  case Nil
  have "takeWhile (\<lambda>c. c \<noteq> CHR 0x0A) (rev r) = rev r"
    by (rule takeWhile_eq_all_conv [THEN iffD2]) (use assms in auto)
  then show ?thesis
    unfolding Nil by (simp only: rev_rev_ident concat.simps list.map append_Nil)
next
  case (snoc ys y)
  have e: "rev (concat (map (\<lambda>l. l @ NL) ls) @ r) =
          rev r @ CHR 0x0A # rev (concat (map (\<lambda>l. l @ NL) ys) @ y)"
    using snoc by simp
  have "CHR 0x0A \<notin> set (rev r)" using assms by simp
  then have "takeWhile (\<lambda>c. c \<noteq> CHR 0x0A)
               (rev r @ CHR 0x0A # rev (concat (map (\<lambda>l. l @ NL) ys) @ y)) = rev r"
    by (rule takeWhile_upto)
  then show ?thesis by (simp only: e rev_rev_ident)
qed

text \<open>
  C3. For every finite sequence of text chunks whose concatenation contains exactly \<open>N\<close>
  line feeds, feeding the chunks in order through the reassembly loop emits exactly \<open>N\<close>
  lines, none containing a line feed, leaves the text after the last line feed as the
  pending buffer, and the emitted lines with their terminators restored followed by the
  pending buffer are the input again; any other way of cutting the same input into chunks
  gives the same lines and the same pending buffer.
\<close>

theorem reassembly_lossless:
  "\<exists>pending emitted.
     feed_chunks chunks ([], []) = Inr (pending, emitted) \<and>
     length emitted = count_list (concat chunks) (CHR 0x0A) \<and>
     (\<forall>line \<in> set emitted. CHR 0x0A \<notin> set line) \<and>
     pending = rev (takeWhile (\<lambda>c. c \<noteq> CHR 0x0A) (rev (concat chunks))) \<and>
     concat (map (\<lambda>line. line @ NL) emitted) @ pending = concat chunks \<and>
     (\<forall>chunks'. concat chunks' = concat chunks \<longrightarrow>
        feed_chunks chunks' ([], []) = Inr (pending, emitted))"
proof -
  from feed_decomp [of "[]" chunks "[]"] obtain p ls where
    f: "feed_chunks chunks ([], []) = Inr (p, ls)" "CHR 0x0A \<notin> set p"
    "\<forall>l \<in> set ls. CHR 0x0A \<notin> set l" "concat (map (\<lambda>l. l @ NL) ls) @ p = concat chunks"
    by auto
  have n: "length ls = count_list (concat chunks) (CHR 0x0A)"
    using count_lines [OF f(3) f(2)] by (simp only: f(4))
  have t: "p = rev (takeWhile (\<lambda>c. c \<noteq> CHR 0x0A) (rev (concat chunks)))"
    using pending_is_tail [OF f(2), of ls] by (simp only: f(4))
  have i: "feed_chunks chunks' ([], []) = Inr (p, ls)" if "concat chunks' = concat chunks" for chunks'
  proof -
    from feed_decomp [of "[]" chunks' "[]"] obtain p' ls' where
      g: "feed_chunks chunks' ([], []) = Inr (p', ls')" "CHR 0x0A \<notin> set p'"
      "\<forall>l \<in> set ls'. CHR 0x0A \<notin> set l" "concat (map (\<lambda>l. l @ NL) ls') @ p' = concat chunks'"
      by auto
    have "ls' = ls \<and> p' = p"
      by (rule lines_unique [OF g(3) f(3) g(2) f(2)]) (simp only: g(4) f(4) that)
    with g(1) show ?thesis by simp
  qed
  from f n t i show ?thesis by blast
qed

text \<open>C3 at the chunks \<open>"He"\<close>, \<open>"llo\n"\<close>: one line \<open>"Hello"\<close>, nothing pending, as for the
  single chunk \<open>"Hello\n"\<close>.\<close>

theorem reassembly_lossless_witness:
  "feed_chunks [''He'', ''llo'' @ NL] ([], []) = Inr ([], [''Hello'']) \<and>
   feed_chunks [''Hello'' @ NL] ([], []) = Inr ([], [''Hello'']) \<and>
   count_list (concat [''He'', ''llo'' @ NL]) (CHR 0x0A) = 1"
proof -
  have e: "feed_chunks [''He'', ''llo'' @ NL] ([], []) = Inr ([], [''Hello''])"
    by (simp add: while_lines.simps py_split1_def collect_def)
  from reassembly_lossless [of "[''He'', ''llo'' @ NL]"] obtain pending emitted where
    r: "feed_chunks [''He'', ''llo'' @ NL] ([], []) = Inr (pending, emitted)"
    "\<forall>chunks'. concat chunks' = concat [''He'', ''llo'' @ NL] \<longrightarrow>
        feed_chunks chunks' ([], []) = Inr (pending, emitted)"
    by blast
  have "feed_chunks [''Hello'' @ NL] ([], []) = Inr (pending, emitted)"
    by (rule r(2) [rule_format]) simp
  with r(1) e show ?thesis by simp
qed

section \<open>The line loop with a body that cannot fail\<close>

lemma while_lines_fold:
  assumes "\<And>l s. body l s = Inr (f l s)"
  shows "\<exists>rest ls. while_lines body buf s = Inr (rest, fold f ls s) \<and>
           while_lines collect buf acc = Inr (rest, acc @ ls)"
proof (induction buf arbitrary: s acc rule: length_induct)
  case (1 buf)
  show ?case
  proof (cases "CHR 0x0A \<in> set buf")
    case False
    then have "while_lines body buf s = Inr (buf, fold f [] s)"
      "while_lines collect buf acc = Inr (buf, acc @ [])"
      by (simp_all add: while_lines.simps)
    then show ?thesis by blast
  next
    case True
    from split1_parts [OF True] obtain line rest where
      sp: "py_split1 (CHR 0x0A) buf = [line, rest]" and buf: "buf = line @ NL @ rest" by blast
    have "length rest < length buf" using buf by simp
    with 1 obtain r ls where
      ih: "while_lines body rest (f line s) = Inr (r, fold f ls (f line s))"
      "while_lines collect rest (acc @ [line]) = Inr (r, (acc @ [line]) @ ls)" by blast
    have "while_lines body buf s = while_lines body rest (f line s)"
      using True sp by (subst while_lines.simps) (simp add: assms)
    with ih(1) have b: "while_lines body buf s = Inr (r, fold f (line # ls) s)" by simp
    have "while_lines collect buf acc = while_lines collect rest (acc @ [line])"
      using True sp by (subst while_lines.simps) (simp add: collect_def)
    with ih(2) have "while_lines collect buf acc = Inr (r, acc @ (line # ls))" by simp
    with b show ?thesis by blast
  qed
qed

text \<open>The lines and the rest that the loop finds in a buffer are determined by the buffer.\<close>

lemma while_lines_lines:
  assumes "\<And>l s. body l s = Inr (f l s)"
  shows "\<exists>rest ls. while_lines body buf s = Inr (rest, fold f ls s) \<and>
           CHR 0x0A \<notin> set rest \<and> (\<forall>l \<in> set ls. CHR 0x0A \<notin> set l) \<and>
           concat (map (\<lambda>l. l @ NL) ls) @ rest = buf"
proof -
  from while_lines_fold [of body f buf s "[]", OF assms] obtain rest ls where
    w: "while_lines body buf s = Inr (rest, fold f ls s)"
    "while_lines collect buf [] = Inr (rest, [] @ ls)" by blast
  from while_collect [of buf "[]"] obtain rest' ls' where
    c: "while_lines collect buf [] = Inr (rest', [] @ ls')" "CHR 0x0A \<notin> set rest'"
    "\<forall>l \<in> set ls'. CHR 0x0A \<notin> set l" "concat (map (\<lambda>l. l @ NL) ls') @ rest' = buf" by blast
  from w(2) c(1) have "rest' = rest" "ls' = ls" by simp_all
  with w(1) c show ?thesis by blast
qed

lemma write_log_fold:
  "fold (\<lambda>l. write_log ses (l @ NL) True) ls s =
     s\<lparr>file_ops := file_ops s @
          concat (map (\<lambda>(k, l). [Write (timestamp_of (stamp_src ses) k @ l @ NL), Flush])
                    (enumerate (stamps s) ls)),
       stamps := stamps s + length ls\<rparr>"
proof (induction ls arbitrary: s)
  case Nil
  show ?case by simp
next
  case (Cons l ls)
  show ?case
    unfolding fold_simps Cons.IH
    by (simp add: write_log_def)
qed

section \<open>CAN-ASCII frames\<close>






























section \<open>White space around a line does not change its decoding\<close>

lemma strip_padding:
  assumes "list_all is_space ws1" "list_all is_space ws2"
  shows "py_strip (ws1 @ l @ ws2) = py_strip l"
proof -
  have a: "dropWhile is_space (ws1 @ l @ ws2) = dropWhile is_space (l @ ws2)"
    by (rule dropWhile_append2) (use assms(1) in \<open>simp add: list_all_iff\<close>)
  have b: "dropWhile is_space (rev ws2 @ x) = dropWhile is_space x" for x
    by (rule dropWhile_append2) (use assms(2) in \<open>simp add: list_all_iff\<close>)
  show ?thesis
  proof (cases "list_all is_space l")
    case True
    have "dropWhile is_space l = []"
      by (rule dropWhile_eq_Nil_conv [THEN iffD2]) (use True in \<open>simp add: list_all_iff\<close>)
    moreover have "dropWhile is_space (l @ ws2) = []"
      by (rule dropWhile_eq_Nil_conv [THEN iffD2])
         (use True assms(2) in \<open>auto simp: list_all_iff\<close>)
    ultimately show ?thesis unfolding py_strip_def a by (simp only:)
  next
    case False
    then obtain x where "x \<in> set l" "\<not> is_space x" by (auto simp: list_all_iff)
    then have "dropWhile is_space (l @ ws2) = dropWhile is_space l @ ws2"
      by (rule dropWhile_append1)
    then show ?thesis unfolding py_strip_def a by (simp add: b)
  qed
qed

text \<open>
  C10. For every string \<open>l\<close>, each of \<open>parse_nmea_sentence\<close>, \<open>parse_can_ascii\<close> and
  \<open>parse_json_line\<close> returns the same report for \<open>l\<close> and for \<open>l\<close> with white space
  (in the sense of \<open>str.strip\<close>, so a trailing line feed too) put before or after it:
  each decoder strips its input before it looks at it.
\<close>

theorem decoders_ignore_padding:
  assumes "list_all is_space ws1" "list_all is_space ws2"
  shows "parse_nmea_sentence (ws1 @ l @ ws2) = parse_nmea_sentence l \<and>
         parse_can_ascii (ws1 @ l @ ws2) = parse_can_ascii l \<and>
         parse_json_line loads dumps (ws1 @ l @ ws2) = parse_json_line loads dumps l"
  unfolding parse_nmea_sentence_def parse_can_ascii_def parse_json_line_def
  by (simp only: strip_padding [OF assms] simp_thms)

text \<open>C10 at a line with a leading blank and a trailing line feed.\<close>

theorem decoders_ignore_padding_witness:
  "list_all is_space '' '' \<and> list_all is_space NL \<and>
   parse_nmea_sentence ('' '' @ ''$GPGGA,1*4B'' @ NL) = parse_nmea_sentence ''$GPGGA,1*4B'' \<and>
   parse_can_ascii ('' '' @ ''t1002AABB'' @ NL) = parse_can_ascii ''t1002AABB'' \<and>
   parse_json_line (\<lambda>s. Inl JSONDecodeError) (\<lambda>j :: unit. Inr []) ('' '' @ ''{}'' @ NL) =
     parse_json_line (\<lambda>s. Inl JSONDecodeError) (\<lambda>j :: unit. Inr []) ''{}''"
proof -
  have h: "list_all is_space '' ''" "list_all is_space NL"
    by (simp_all add: is_space_def)
  from decoders_ignore_padding [OF h] h show ?thesis by blast
qed

subsection \<open>The decoders return a report for every input\<close>










section \<open>The pending buffer at the end of a session\<close>

lemma log_line_plain:
  assumes "log_to_file ses" "parser ses = None"
  shows "log_line ses = cli_line ses"
  using assms by (intro ext) (simp add: log_line_def cli_line_def)

lemma handle_chunk_plain:
  assumes "log_to_file ses" "parser ses = None" "protocol ses \<noteq> ''Modbus-RTU''"
  shows "handle_chunk ses raw s = console_output ses raw s"
  using assms
  by (simp add: handle_chunk_def console_output_def log_line_plain case_prod_beta Let_def)

lemma console_output_total: "\<exists>s'. console_output ses raw s = Inr s'"
proof (cases "log_to_file ses")
  case False
  then show ?thesis by (simp add: console_output_def case_prod_beta Let_def)
next
  case True
  let ?s1 = "s\<lparr>decoder := snd (decode ses (decoder s) raw)\<rparr>"
  from while_lines_fold [of "cli_line ses" "\<lambda>l. write_log ses (l @ NL) True"
      "line_buffer s @ fst (decode ses (decoder s) raw)" ?s1 "[]"]
  obtain rest t where
    "while_lines (cli_line ses) (line_buffer s @ fst (decode ses (decoder s) raw)) ?s1 =
       Inr (rest, t)"
    by (auto simp: cli_line_def)
  with True show ?thesis
    by (simp add: console_output_def case_prod_beta Let_def bind_result_def)
qed

lemma cli_chunks_total: "\<exists>s'. cli_chunks ses chunks s = Inr s'"
proof (induction chunks arbitrary: s)
  case Nil
  show ?case by simp
next
  case (Cons c cs)
  from console_output_total obtain s1 where "console_output ses c s = Inr s1" by blast
  with Cons [of s1] show ?case by simp
qed

lemma consume_plain:
  assumes "log_to_file ses" "parser ses = None" "protocol ses \<noteq> ''Modbus-RTU''"
    and "cli_chunks ses chunks s = Inr s'"
  shows "consume ses (map Some chunks @ [None]) s =
           Inr (Returned (s'\<lparr>file_ops := file_ops s' @ [Close]\<rparr>))"
  using assms(4)
proof (induction chunks arbitrary: s)
  case Nil
  then show ?case using assms(1) by simp
next
  case (Cons c cs)
  from console_output_total obtain s1 where c: "console_output ses c s = Inr s1" by blast
  with Cons.prems have "cli_chunks ses cs s1 = Inr s'" by simp
  from Cons.IH [OF this] c show ?case
    by (simp add: handle_chunk_plain [OF assms(1-3)])
qed

text \<open>
  C4. In a session that logs to a file with no protocol decoder, let \<open>s\<close> be the state
  after the chunks received: \<open>line_buffer s\<close> is the pending partial line and \<open>file_ops s\<close>
  the entries written for the completed lines. When the console mode stops it writes the
  pending buffer, if not empty, stripped, as one more timestamped entry and then closes the
  file. The log/decode thread of the window, given the same chunks and then the sentinel,
  only closes the file: the pending buffer is still in \<open>line_buffer\<close> and is not written.
\<close>

theorem pending_buffer_at_session_end:
  assumes "log_to_file ses" "parser ses = None" "protocol ses \<noteq> ''Modbus-RTU''"
  shows "\<exists>s. cli_chunks ses chunks (initial_state d0) = Inr s \<and>
           run_cli_mode ses d0 chunks =
             Inr (s\<lparr>file_ops := file_ops s @
                       (if line_buffer s \<noteq> []
                        then [Write (timestamp_of (stamp_src ses) (stamps s) @
                                py_strip (line_buffer s) @ NL)]
                        else []) @ [Close],
                     stamps := (if line_buffer s \<noteq> [] then Suc (stamps s) else stamps s)\<rparr>) \<and>
           log_and_decode_task ses d0 (map Some chunks @ [None]) =
             Inr (Returned (s\<lparr>file_ops := file_ops s @ [Close]\<rparr>))"
proof -
  from cli_chunks_total obtain s where s: "cli_chunks ses chunks (initial_state d0) = Inr s"
    by blast
  have "run_cli_mode ses d0 chunks =
          Inr (s\<lparr>file_ops := file_ops s @
                    (if line_buffer s \<noteq> []
                     then [Write (timestamp_of (stamp_src ses) (stamps s) @
                             py_strip (line_buffer s) @ NL)]
                     else []) @ [Close],
                  stamps := (if line_buffer s \<noteq> [] then Suc (stamps s) else stamps s)\<rparr>)"
    using s assms(1) by (simp add: run_cli_mode_def cli_finally_def write_log_def)
  moreover have "log_and_decode_task ses d0 (map Some chunks @ [None]) =
                   Inr (Returned (s\<lparr>file_ops := file_ops s @ [Close]\<rparr>))"
    unfolding log_and_decode_task_def by (rule consume_plain [OF assms s])
  ultimately show ?thesis using s by blast
qed

text \<open>
  C4 at the chunks \<open>b"ab\nc"\<close>, \<open>b"d"\<close> with a Latin-1 decoder and no timestamps: both
  modes write the line \<open>ab\<close>; the console mode then writes the pending \<open>cd\<close>, the thread
  of the window closes the file without it.
\<close>

theorem pending_buffer_at_session_end_witness:
  "run_cli_mode
     \<lparr>decode = (\<lambda>d raw. (map (\<lambda>b. char_of (unat b)) raw, d)), log_to_file = True,
      protocol = ''None'', parser = None,
      stamp_src = (\<lambda>k. \<lparr>now_at = \<lparr>isoformat_ms = [], strftime = (\<lambda>f. []),
                                     astimezone_strftime = (\<lambda>f. [])\<rparr>,
                          format_choice_at = ''none'', delimiter_at = ''blank''\<rparr>)\<rparr>
     () [[97, 98, 10, 99], [100]] =
   Inr \<lparr>decoder = (), line_buffer = ''cd'',
        file_ops = [Write (''ab'' @ NL), Flush, Write (''cd'' @ NL), Close],
        decoded_queue = [], stamps = 2\<rparr> \<and>
   log_and_decode_task
     \<lparr>decode = (\<lambda>d raw. (map (\<lambda>b. char_of (unat b)) raw, d)), log_to_file = True,
      protocol = ''None'', parser = None,
      stamp_src = (\<lambda>k. \<lparr>now_at = \<lparr>isoformat_ms = [], strftime = (\<lambda>f. []),
                                     astimezone_strftime = (\<lambda>f. [])\<rparr>,
                          format_choice_at = ''none'', delimiter_at = ''blank''\<rparr>)\<rparr>
     () [Some [97, 98, 10, 99], Some [100], None] =
   Inr (Returned \<lparr>decoder = (), line_buffer = ''cd'',
        file_ops = [Write (''ab'' @ NL), Flush, Close],
        decoded_queue = [], stamps = 1\<rparr>)"
proof -
  let ?ses = "\<lparr>decode = (\<lambda>d raw. (map (\<lambda>b. char_of (unat b)) raw, d)), log_to_file = True,
      protocol = ''None'', parser = None,
      stamp_src = (\<lambda>k. \<lparr>now_at = \<lparr>isoformat_ms = [], strftime = (\<lambda>f. []),
                                     astimezone_strftime = (\<lambda>f. [])\<rparr>,
                          format_choice_at = ''none'', delimiter_at = ''blank''\<rparr>)\<rparr>
      :: unit session"
  have ch: "char_of (97 :: nat) = CHR ''a''" "char_of (98 :: nat) = CHR ''b''"
    "char_of (10 :: nat) = CHR 0x0A" "char_of (99 :: nat) = CHR ''c''"
    "char_of (100 :: nat) = CHR ''d''"
    by (simp_all add: char_of_def bit_0)
  have c: "cli_chunks ?ses [[97, 98, 10, 99], [100]] (initial_state ()) =
        Inr \<lparr>decoder = (), line_buffer = ''cd'', file_ops = [Write (''ab'' @ NL), Flush],
             decoded_queue = [], stamps = 1\<rparr>"
    by (simp add: console_output_def initial_state_def bind_result_def while_lines.simps
        py_split1_def cli_line_def write_log_def timestamp_of_def get_timestamp_def ch)
  have s: "py_strip ''cd'' = ''cd''" by (simp add: py_strip_def is_space_def)
  from pending_buffer_at_session_end [of ?ses "[[97, 98, 10, 99], [100]]" "()"] c s
  show ?thesis
    by (simp add: timestamp_of_def get_timestamp_def)
qed

section \<open>A failed read\<close>

lemma read_task_failure:
  "read_task (Some put) (map ReadOK datas @ SerialException # later) (True, q) =
     (False, put error_chunk (fold (\<lambda>d q. if d \<noteq> [] then put d q else q) datas q))"
  by (induction datas arbitrary: q) simp_all

lemma fold_put: "fold (\<lambda>d q. if d \<noteq> [] then q @ [d] else q) datas q = q @ filter (\<lambda>d. d \<noteq> []) datas"
  by (induction datas arbitrary: q) simp_all

lemma gui_read_task_failure:
  assumes "reading g"
  shows "gui_read_task (map ReadOK datas @ SerialException # later) g =
           g\<lparr>reading := False,
             gui_queue := gui_queue g @ filter (\<lambda>d. d \<noteq> []) datas @ [error_chunk]\<rparr>"
  using assms by (simp add: gui_read_task_def read_task_failure fold_put)

lemma consume_waits:
  assumes "None \<notin> set items" "consume ses items s = Inr r"
  shows "\<exists>s'. r = Waiting s'"
  using assms
proof (induction items arbitrary: s)
  case Nil
  then show ?case by auto
next
  case (Cons i items)
  from Cons.prems(1) obtain c where i: "i = Some c" by (cases i) auto
  with Cons.prems(2) obtain s1 where "consume ses items s1 = Inr r"
    by (auto split: sum.splits)
  with Cons.IH [of s1] Cons.prems(1) show ?case by simp
qed

text \<open>
  C7. While the window is reading, let the reads return the chunks \<open>datas\<close> and the next
  one raise \<open>SerialException\<close>. Then the read loop puts the chunks that are not empty and
  after them one error chunk on \<open>gui_queue\<close>, clears \<open>is_reading\<close> and ends: whatever
  the port would do next (\<open>later\<close>) has no effect. It puts nothing on \<open>log_queue\<close>. The
  next run of \<open>_process_gui_queue\<close> displays the chunks and forwards them, the error chunk
  among them, to \<open>log_queue\<close> as data; closing the window then adds nothing, since
  \<open>is_reading\<close> is no longer set. So if no sentinel was on \<open>log_queue\<close> before, none is
  there afterwards, and the log/decode thread, if it returns from the items at all, has not
  ended: it waits for the next item.
\<close>

theorem read_failure_handling:
  assumes "reading g"
  shows "let g1 = gui_read_task (map ReadOK datas @ SerialException # later) g;
             g2 = process_gui_queue forward g1;
             g3 = on_closing g2
         in g1 = g\<lparr>reading := False,
                    gui_queue := gui_queue g @ filter (\<lambda>d. d \<noteq> []) datas @ [error_chunk]\<rparr> \<and>
            displayed g2 = displayed g @ gui_queue g @ filter (\<lambda>d. d \<noteq> []) datas @ [error_chunk] \<and>
            log_queue g2 = log_queue g @
               (if forward
                then map Some (gui_queue g @ filter (\<lambda>d. d \<noteq> []) datas @ [error_chunk])
                else []) \<and>
            g3 = g2 \<and>
            (None \<notin> set (log_queue g) \<longrightarrow>
               None \<notin> set (log_queue g3) \<and>
               (\<forall>ses s r. consume ses (log_queue g3) s = Inr r \<longrightarrow> (\<exists>s'. r = Waiting s')))"
proof -
  let ?g1 = "g\<lparr>reading := False,
                gui_queue := gui_queue g @ filter (\<lambda>d. d \<noteq> []) datas @ [error_chunk]\<rparr>"
  let ?g2 = "process_gui_queue forward ?g1"
  have 1: "gui_read_task (map ReadOK datas @ SerialException # later) g = ?g1"
    by (rule gui_read_task_failure [OF assms])
  have 2: "displayed ?g2 =
             displayed g @ gui_queue g @ filter (\<lambda>d. d \<noteq> []) datas @ [error_chunk]"
    "log_queue ?g2 = log_queue g @
               (if forward
                then map Some (gui_queue g @ filter (\<lambda>d. d \<noteq> []) datas @ [error_chunk])
                else [])"
    "\<not> reading ?g2"
    by (simp_all add: process_gui_queue_def)
  have 3: "on_closing ?g2 = ?g2" using 2(3) by (simp only: on_closing_def if_False)
  have 4: "None \<notin> set (log_queue ?g2)" if "None \<notin> set (log_queue g)"
    using that unfolding 2(2) by auto
  have 5: "\<exists>s'. r = Waiting s'"
    if "None \<notin> set (log_queue g)" "consume ses (log_queue ?g2) s = Inr r" for ses :: "'d session" and s r
    using consume_waits [OF 4 [OF that(1)] that(2)] .
  show ?thesis
    unfolding Let_def 1 3
    using 2(1,2) 4 5 by blast
qed

lemma consume_data_plain:
  assumes "log_to_file ses" "parser ses = None" "protocol ses \<noteq> ''Modbus-RTU''"
  shows "\<exists>s'. consume ses (map Some chunks) s = Inr (Waiting s')"
proof (induction chunks arbitrary: s)
  case Nil
  show ?case by simp
next
  case (Cons c cs)
  from console_output_total obtain s1 where "console_output ses c s = Inr s1" by blast
  with Cons [of s1] show ?case by (simp add: handle_chunk_plain [OF assms])
qed

text \<open>
  C7 at a window that logs to a file: one chunk \<open>b"a"\<close> is read, the next read fails. The
  error chunk is displayed and forwarded to the log thread as data, no sentinel follows,
  and the log thread waits.
\<close>

theorem read_failure_handling_witness:
  "(let g = \<lparr>gui_queue = [], log_queue = [], displayed = [], reading = True\<rparr>;
        ses = \<lparr>decode = (\<lambda>d raw. (map (\<lambda>b. char_of (unat b)) raw, d)), log_to_file = True,
               protocol = ''None'', parser = None,
               stamp_src = (\<lambda>k. \<lparr>now_at = \<lparr>isoformat_ms = [], strftime = (\<lambda>f. []),
                                              astimezone_strftime = (\<lambda>f. [])\<rparr>,
                                   format_choice_at = ''none'', delimiter_at = ''blank''\<rparr>)\<rparr>;
        g1 = gui_read_task [ReadOK [97], SerialException, ReadOK [98]] g;
        g2 = process_gui_queue True g1;
        g3 = on_closing g2
    in reading g \<and> None \<notin> set (log_queue g) \<and>
       g1 = \<lparr>gui_queue = [[97], error_chunk], log_queue = [], displayed = [],
             reading = False\<rparr> \<and>
       displayed g2 = [[97], error_chunk] \<and>
       log_queue g2 = [Some [97], Some error_chunk] \<and>
       g3 = g2 \<and> None \<notin> set (log_queue g3) \<and>
       (\<exists>s'. consume ses (log_queue g3) (initial_state ()) = Inr (Waiting s')))"
proof -
  let ?g = "\<lparr>gui_queue = [], log_queue = [], displayed = [], reading = True\<rparr>"
  let ?ses = "\<lparr>decode = (\<lambda>d raw. (map (\<lambda>b. char_of (unat b)) raw, d)), log_to_file = True,
               protocol = ''None'', parser = None,
               stamp_src = (\<lambda>k. \<lparr>now_at = \<lparr>isoformat_ms = [], strftime = (\<lambda>f. []),
                                              astimezone_strftime = (\<lambda>f. [])\<rparr>,
                                   format_choice_at = ''none'', delimiter_at = ''blank''\<rparr>)\<rparr>
             :: unit session"
  let ?g1 = "gui_read_task [ReadOK [97], SerialException, ReadOK [98]] ?g"
  let ?g2 = "process_gui_queue True ?g1"
  let ?g3 = "on_closing ?g2"
  from consume_data_plain [of ?ses "[[97], error_chunk]" "initial_state ()"]
  obtain s' where c: "consume ?ses [Some [97], Some error_chunk] (initial_state ()) = Inr (Waiting s')"
    by auto
  have r: "reading ?g" "None \<notin> set (log_queue ?g)" by simp_all
  note t = read_failure_handling [OF r(1), of "[[97]]" "[ReadOK [98]]" True, unfolded Let_def list.map append.simps]
  have a: "?g1 = \<lparr>gui_queue = [[97], error_chunk], log_queue = [], displayed = [],
             reading = False\<rparr>" by (simp add: gui_read_task_def)
  have b: "displayed ?g2 = [[97], error_chunk]" by (simp add: a process_gui_queue_def)
  have l: "log_queue ?g2 = [Some [97], Some error_chunk]"
    by (simp add: a process_gui_queue_def)
  from t have e: "?g3 = ?g2" by (rule_tac conjunct1 [OF conjunct2 [OF conjunct2 [OF conjunct2]]])
  from t r(2) have n: "None \<notin> set (log_queue ?g3)" by blast
  have w: "\<exists>s'. consume ?ses (log_queue ?g3) (initial_state ()) = Inr (Waiting s')"
    unfolding e l using c by blast
  show ?thesis
    unfolding Let_def using r a b l e n w by blast
qed

section \<open>The command history\<close>

lemma deque_append_50:
  "length h \<le> 50 \<Longrightarrow>
   deque_append 50 h x = (if length h < 50 then h @ [x] else tl h @ [x])"
  by (cases h) (auto simp: deque_append_def)

lemma send_data_ignored:
  "button_disabled \<or> entry_input s = [] \<Longrightarrow>
   send_data button_disabled hex_input line_ending encode p s = (s, Ignored)"
  by (auto simp: send_data_def)

lemma send_data_history:
  assumes "\<not> button_disabled" "entry_input s \<noteq> []"
  shows "command_history (fst (send_data button_disabled hex_input line_ending encode p s)) =
           (if command_history s = [] \<or> last (command_history s) \<noteq> entry_input s
            then deque_append 50 (command_history s) (entry_input s)
            else command_history s)"
  using assms
  by (simp add: send_data_def Let_def split: sum.splits prod.splits)

lemma send_data_index:
  assumes "\<not> button_disabled" "entry_input s \<noteq> []"
  shows "history_index (fst (send_data button_disabled hex_input line_ending encode p s)) =
           int (length (command_history (fst (send_data button_disabled hex_input line_ending encode p s))))"
  using assms
  by (simp add: send_data_def Let_def split: sum.splits prod.splits)

lemma send_data_outcome:
  assumes "\<not> button_disabled" "entry_input s \<noteq> []"
  shows "snd (send_data button_disabled hex_input line_ending encode p s) \<noteq> Ignored"
  using assms
  by (simp add: send_data_def Let_def split: sum.splits prod.splits)

lemma deque_append_bound: "length (deque_append 50 h x) \<le> 50"
  by (simp add: deque_append_def)

text \<open>
  C8. \<open>_send_data\<close> does nothing while the send button is disabled or the input is empty.
  Otherwise, whatever the outcome of the send (data written, write refused, input not
  valid hex, encoding error), the history afterwards is: unchanged if the input equals
  its last entry; else the input appended, the oldest entry leaving when there are 50
  already. The cursor is set to the length of the history, and the history never holds
  more than 50 entries.
\<close>

theorem history_on_send:
  "let h = command_history s; x = entry_input s;
       r = send_data button_disabled hex_input line_ending encode p s
   in (button_disabled \<or> x = [] \<longrightarrow> r = (s, Ignored)) \<and>
      (\<not> button_disabled \<and> x \<noteq> [] \<longrightarrow>
         snd r \<noteq> Ignored \<and>
         history_index (fst r) = int (length (command_history (fst r))) \<and>
         (h \<noteq> [] \<and> last h = x \<longrightarrow> command_history (fst r) = h) \<and>
         ((h = [] \<or> last h \<noteq> x) \<and> length h < 50 \<longrightarrow> command_history (fst r) = h @ [x]) \<and>
         ((h = [] \<or> last h \<noteq> x) \<and> length h = 50 \<longrightarrow>
            command_history (fst r) = tl h @ [x])) \<and>
      (length h \<le> 50 \<longrightarrow> length (command_history (fst r)) \<le> 50)"
proof -
  let ?r = "send_data button_disabled hex_input line_ending encode p s"
  let ?h = "command_history s" and ?x = "entry_input s"
  have a: "?r = (s, Ignored)" if "button_disabled \<or> ?x = []"
    using that by (rule send_data_ignored)
  have b: "command_history (fst ?r) =
             (if ?h = [] \<or> last ?h \<noteq> ?x then deque_append 50 ?h ?x else ?h)"
    "history_index (fst ?r) = int (length (command_history (fst ?r)))" "snd ?r \<noteq> Ignored"
    if "\<not> button_disabled \<and> ?x \<noteq> []"
    using that send_data_history [of button_disabled s hex_input line_ending encode p]
      send_data_index [of button_disabled s hex_input line_ending encode p]
      send_data_outcome [of button_disabled s hex_input line_ending encode p] by simp_all
  have c: "command_history (fst ?r) = ?h"
    if "\<not> button_disabled \<and> ?x \<noteq> []" "?h \<noteq> [] \<and> last ?h = ?x"
    using b(1) [OF that(1)] that(2) by simp
  have d: "command_history (fst ?r) = ?h @ [?x]"
    if "\<not> button_disabled \<and> ?x \<noteq> []" "(?h = [] \<or> last ?h \<noteq> ?x) \<and> length ?h < 50"
    using b(1) [OF that(1)] that(2) by (auto simp: deque_append_50)
  have e: "command_history (fst ?r) = tl ?h @ [?x]"
    if "\<not> button_disabled \<and> ?x \<noteq> []" "(?h = [] \<or> last ?h \<noteq> ?x) \<and> length ?h = 50"
    using b(1) [OF that(1)] that(2) by (auto simp: deque_append_50)
  have f: "length (command_history (fst ?r)) \<le> 50" if "length ?h \<le> 50"
  proof (cases "button_disabled \<or> ?x = []")
    case True
    from a [OF this] that show ?thesis by simp
  next
    case False
    then have "\<not> button_disabled \<and> ?x \<noteq> []" by simp
    from b(1) [OF this] that deque_append_bound [of ?h ?x] show ?thesis
      by (simp split: if_splits)
  qed
  show ?thesis
    unfolding Let_def
  proof (intro conjI impI)
    assume "button_disabled \<or> ?x = []"
    then show "?r = (s, Ignored)" by (rule a)
  next
    assume n: "\<not> button_disabled \<and> ?x \<noteq> []"
    show "snd ?r \<noteq> Ignored" by (rule b(3) [OF n])
    show "history_index (fst ?r) = int (length (command_history (fst ?r)))" by (rule b(2) [OF n])
    show "command_history (fst ?r) = ?h" if "?h \<noteq> [] \<and> last ?h = ?x"
      by (rule c [OF n that])
    show "command_history (fst ?r) = ?h @ [?x]"
      if "(?h = [] \<or> last ?h \<noteq> ?x) \<and> length ?h < 50"
      by (rule d [OF n that])
    show "command_history (fst ?r) = tl ?h @ [?x]"
      if "(?h = [] \<or> last ?h \<noteq> ?x) \<and> length ?h = 50"
      by (rule e [OF n that])
  next
    assume "length ?h \<le> 50"
    then show "length (command_history (fst ?r)) \<le> 50" by (rule f)
  qed
qed

text \<open>
  C8 at four sends: a new command with 50 entries in the history and a port whose write
  fails; a disabled send button; a command equal to the last entry; and text that is not
  hex with the hex box ticked.
\<close>

theorem history_on_send_witness:
  "command_history (fst (send_data False False ''None'' (\<lambda>t. Inr [])
      \<lparr>is_open = True, write_raises = Some ''gone''\<rparr>
      \<lparr>command_history = replicate 50 ''a'', history_index = 50, entry_input = ''b'',
       shown_sent = 0\<rparr>)) = tl (replicate 50 ''a'') @ [''b''] \<and>
   send_data True False ''None'' (\<lambda>t. Inr []) \<lparr>is_open = True, write_raises = None\<rparr>
      \<lparr>command_history = [], history_index = - 1, entry_input = ''b'', shown_sent = 0\<rparr> =
     (\<lparr>command_history = [], history_index = - 1, entry_input = ''b'', shown_sent = 0\<rparr>,
      Ignored) \<and>
   command_history (fst (send_data False False ''None'' (\<lambda>t. Inr [])
      \<lparr>is_open = True, write_raises = None\<rparr>
      \<lparr>command_history = [''a''], history_index = 1, entry_input = ''a'',
       shown_sent = 0\<rparr>)) = [''a''] \<and>
   command_history (fst (send_data False True ''None'' (\<lambda>t. Inr [])
      \<lparr>is_open = True, write_raises = None\<rparr>
      \<lparr>command_history = [], history_index = - 1, entry_input = ''zz'',
       shown_sent = 0\<rparr>)) = [''zz'']"
proof -
  note t1 = history_on_send [of
      "\<lparr>command_history = replicate 50 ''a'', history_index = 50, entry_input = ''b'',
        shown_sent = 0\<rparr>" False False "''None''" "\<lambda>t. Inr []"
      "\<lparr>is_open = True, write_raises = Some ''gone''\<rparr>", unfolded Let_def]
  note t2 = history_on_send [of
      "\<lparr>command_history = [], history_index = - 1, entry_input = ''b'', shown_sent = 0\<rparr>"
      True False "''None''" "\<lambda>t. Inr []" "\<lparr>is_open = True, write_raises = None\<rparr>",
      unfolded Let_def]
  note t3 = history_on_send [of
      "\<lparr>command_history = [''a''], history_index = 1, entry_input = ''a'', shown_sent = 0\<rparr>"
      False False "''None''" "\<lambda>t. Inr []" "\<lparr>is_open = True, write_raises = None\<rparr>",
      unfolded Let_def]
  note t4 = history_on_send [of
      "\<lparr>command_history = [], history_index = - 1, entry_input = ''zz'', shown_sent = 0\<rparr>"
      False True "''None''" "\<lambda>t. Inr []" "\<lparr>is_open = True, write_raises = None\<rparr>",
      unfolded Let_def]
  from t1 have 1: "command_history (fst (send_data False False ''None'' (\<lambda>t. Inr [])
      \<lparr>is_open = True, write_raises = Some ''gone''\<rparr>
      \<lparr>command_history = replicate 50 ''a'', history_index = 50, entry_input = ''b'',
       shown_sent = 0\<rparr>)) = tl (replicate 50 ''a'') @ [''b'']" by simp
  from t2 have 2: "send_data True False ''None'' (\<lambda>t. Inr []) \<lparr>is_open = True, write_raises = None\<rparr>
      \<lparr>command_history = [], history_index = - 1, entry_input = ''b'', shown_sent = 0\<rparr> =
     (\<lparr>command_history = [], history_index = - 1, entry_input = ''b'', shown_sent = 0\<rparr>,
      Ignored)" by simp
  from t3 have 3: "command_history (fst (send_data False False ''None'' (\<lambda>t. Inr [])
      \<lparr>is_open = True, write_raises = None\<rparr>
      \<lparr>command_history = [''a''], history_index = 1, entry_input = ''a'',
       shown_sent = 0\<rparr>)) = [''a'']" by simp
  from t4 have 4: "command_history (fst (send_data False True ''None'' (\<lambda>t. Inr [])
      \<lparr>is_open = True, write_raises = None\<rparr>
      \<lparr>command_history = [], history_index = - 1, entry_input = ''zz'',
       shown_sent = 0\<rparr>)) = [''zz'']" by simp
  from 1 2 3 4 show ?thesis by (intro conjI)
qed

text \<open>
  The claim as stated fails: a send that does not succeed is appended too. With the port
  open and its \<open>write\<close> raising \<open>SerialException("gone")\<close>, the command \<open>AT\<close> is in the
  history although the send failed.
\<close>

theorem failed_send_counterexample:
  "send_data False False ''None'' (\<lambda>t. Inr (map of_char t))
     \<lparr>is_open = True, write_raises = Some ''gone''\<rparr>
     \<lparr>command_history = [], history_index = - 1, entry_input = ''AT'', shown_sent = 0\<rparr> =
   (\<lparr>command_history = [''AT''], history_index = 1, entry_input = ''AT'', shown_sent = 0\<rparr>,
    SendFailed (Some ''Error al enviar datos: gone''))"
  by (simp add: send_data_def write_data_def deque_append_def line_ending_map_def
      bind_result_def Let_def)

end
